theory Spec2Isabelle
  imports Complex_Main
begin

section \<open>Retry executor (\<^verbatim>\<open>retryOperation\<close> of src/utils.ts)\<close>

text \<open>
  The operation is an effectful thunk: run in an environment state it either throws
  (\<open>Inl\<close>) or returns a value (\<open>Inr\<close>) and leaves a new environment state.
  What \<^verbatim>\<open>retryOperation\<close> does besides calling it is recorded as a trace of events:
  \<open>Invoke\<close> for each call of the operation, \<open>Wait ms\<close> for each
  \<^verbatim>\<open>setTimeout\<close> pause of \<open>ms\<close> milliseconds.
\<close>

datatype event = Invoke | Wait nat

type_synonym ('s, 'e, 'a) operation = "'s \<Rightarrow> ('e + 'a) \<times> 's"

text \<open>
  The \<^verbatim>\<open>for (let attempt = 1; attempt <= maxAttempts; attempt++)\<close> loop. The loop
  variable, \<^verbatim>\<open>lastError\<close> (\<open>None\<close> is JavaScript's \<^verbatim>\<open>undefined\<close>), the environment
  and the trace are threaded through. The result is \<open>Inr v\<close> for \<^verbatim>\<open>return v\<close> and
  \<open>Inl e\<close> for \<^verbatim>\<open>throw lastError\<close>.
\<close>

function retry_loop ::
  "('s, 'e, 'a) operation \<Rightarrow> nat \<Rightarrow> nat \<Rightarrow> 'e option \<Rightarrow> 's \<Rightarrow> event list
     \<Rightarrow> ('e option + 'a) \<times> 's \<times> event list" where
  "retry_loop operation maxAttempts attempt lastError s tr =
     (if attempt \<le> maxAttempts then
        (case operation s of
           (Inr v, s') \<Rightarrow> (Inr v, s', tr @ [Invoke])
         | (Inl error, s') \<Rightarrow>
             if attempt = maxAttempts then (Inl (Some error), s', tr @ [Invoke])
             else retry_loop operation maxAttempts (Suc attempt) (Some error) s'
                    (tr @ [Invoke, Wait (attempt * 1000)]))
      else (Inl lastError, s, tr))"
  by pat_completeness auto
termination
  by (relation "measure (\<lambda>(operation, maxAttempts, attempt, lastError, s, tr).
        Suc maxAttempts - attempt)") auto

definition retryOperation ::
  "('s, 'e, 'a) operation \<Rightarrow> nat \<Rightarrow> 's \<Rightarrow> ('e option + 'a) \<times> 's \<times> event list" where
  "retryOperation operation maxAttempts s = retry_loop operation maxAttempts 1 None s []"

text \<open>The environment after \<open>j\<close> calls of the operation, and the outcome of call \<open>j + 1\<close>.\<close>

definition env_after :: "('s, 'e, 'a) operation \<Rightarrow> nat \<Rightarrow> 's \<Rightarrow> 's" where
  "env_after operation j s = ((\<lambda>t. snd (operation t)) ^^ j) s"

definition outcome :: "('s, 'e, 'a) operation \<Rightarrow> nat \<Rightarrow> 's \<Rightarrow> 'e + 'a" where
  "outcome operation j s = fst (operation (env_after operation j s))"

text \<open>The trace of \<open>n\<close> failed attempts numbered from \<open>a\<close>, each followed by its pause.\<close>

definition backoff_trace :: "nat \<Rightarrow> nat \<Rightarrow> event list" where
  "backoff_trace a n = concat (map (\<lambda>k. [Invoke, Wait (k * 1000)]) [a..<a + n])"

text \<open>Two concrete operations over a call counter: one that throws its call number every
  time, one that throws twice and then returns.\<close>

definition always_fail :: "(nat, nat, string) operation" where
  "always_fail n = (Inl n, Suc n)"

definition flaky :: "(nat, nat, string) operation" where
  "flaky n = (if n < 2 then Inl n else Inr ''ok'', Suc n)"

section \<open>Text and numbers of the page\<close>

text \<open>
  A JavaScript string is modelled as a \<open>string\<close>, one \<open>char\<close> per code unit; the model
  covers texts whose code units are below 256. \<^verbatim>\<open>\d\<close> matches the ten ASCII digits only.
  \<^verbatim>\<open>String.prototype.trim\<close> removes white space and line terminators at both ends:
  below 256 these are TAB, LF, VT, FF, CR, SPACE and NBSP.
\<close>

definition is_digit :: "char \<Rightarrow> bool" where
  "is_digit c = (c \<in> set ''0123456789'')"

definition is_space :: "char \<Rightarrow> bool" where
  "is_space c = (c \<in> set [CHR 0x09, CHR 0x0A, CHR 0x0B, CHR 0x0C, CHR 0x0D, CHR 0x20, CHR 0xA0])"

definition js_trim :: "string \<Rightarrow> string" where
  "js_trim s = rev (dropWhile is_space (rev (dropWhile is_space s)))"

text \<open>
  A JavaScript number that \<^verbatim>\<open>parseFloat\<close> can return here is \<^verbatim>\<open>NaN\<close> or the Number
  value of a decimal numeral. \<open>Num q\<close> stands for the Number value of the exact decimal
  \<open>q\<close> (its IEEE rounding), as the literal \<^verbatim>\<open>1234.56\<close> stands for the Number value of
  \<open>1234.56\<close>.
\<close>

datatype js_number = NaN | Num rat

definition digit_val :: "char \<Rightarrow> nat" where
  "digit_val c = of_char c - 48"

definition digits_value :: "string \<Rightarrow> nat" where
  "digits_value ds = foldl (\<lambda>n c. 10 * n + digit_val c) 0 ds"

text \<open>
  \<^verbatim>\<open>parseFloat\<close> reads the longest prefix that is a decimal literal and gives \<^verbatim>\<open>NaN\<close>
  when there is none. The strings that reach it in this program hold digits, dots and
  commas only (no sign, exponent or white space: see \<open>numericValue\<close>), so the literal is
  \<open>digits\<close>, \<open>digits.digits\<close>, \<open>digits.\<close> or \<open>.digits\<close>.
\<close>

definition parseFloat :: "string \<Rightarrow> js_number" where
  "parseFloat s =
     (let ip = takeWhile is_digit s; r = dropWhile is_digit s in
      case r of
        [] \<Rightarrow> if ip = [] then NaN else Num (of_nat (digits_value ip))
      | c # r' \<Rightarrow>
          if c = CHR ''.'' then
            (let fp = takeWhile is_digit r' in
             if ip = [] \<and> fp = [] then NaN
             else Num (of_nat (digits_value ip) + of_nat (digits_value fp) / 10 ^ length fp))
          else if ip = [] then NaN else Num (of_nat (digits_value ip)))"

text \<open>\<^verbatim>\<open>s.replace(',', '.')\<close> with a string pattern replaces the first occurrence only.\<close>

fun replace_first :: "char \<Rightarrow> char \<Rightarrow> string \<Rightarrow> string" where
  "replace_first a b [] = []"
| "replace_first a b (c # cs) = (if c = a then b # cs else c # replace_first a b cs)"

text \<open>\<^verbatim>\<open>extractText\<close>: the argument is the text content of the element the selector finds
  in the row, \<open>None\<close> when there is no such element.\<close>

definition extractText :: "string option \<Rightarrow> string" where
  "extractText element = (case element of None \<Rightarrow> [] | Some t \<Rightarrow> js_trim t)"

text \<open>The conversion of \<^verbatim>\<open>extractImporte\<close> (src/utils.ts, lines 78 and 79):
  \<^verbatim>\<open>importeText.replace(/[^\d,]/g, '').replace(',', '.')\<close>, then
  \<^verbatim>\<open>numericValue ? parseFloat(numericValue) : 0\<close>.\<close>

definition numericValue :: "string \<Rightarrow> string" where
  "numericValue importeText =
     replace_first (CHR '','') (CHR ''.'') (filter (\<lambda>c. is_digit c \<or> c = CHR '','') importeText)"

definition parseAmount :: "string \<Rightarrow> js_number" where
  "parseAmount importeText =
     (let nv = numericValue importeText in if nv \<noteq> [] then parseFloat nv else Num 0)"

section \<open>Dates (\<^verbatim>\<open>extractFecha\<close> of src/utils.ts)\<close>

text \<open>
  \<^verbatim>\<open>parse\<close> and \<open>format\<close> come from the package date-fns, which is not part of the
  sources. \<^verbatim>\<open>extractFecha\<close> takes them as a parameter: \<open>parse_ddMMyyyy\<close> is
  \<^verbatim>\<open>parse(text, 'dd/MM/yyyy', new Date())\<close> and \<open>format_yyyyMMdd\<close> is
  \<^verbatim>\<open>format(date, 'yyyy-MM-dd')\<close>; \<open>None\<close> means that the call throws.
\<close>

record 'd date_fns =
  parse_ddMMyyyy :: "string \<Rightarrow> 'd option"
  format_yyyyMMdd :: "'d \<Rightarrow> string option"

text \<open>The conversion of \<^verbatim>\<open>extractFecha\<close>: whatever is thrown inside the \<^verbatim>\<open>try\<close> block
  makes the function return \<^verbatim>\<open>fechaText\<close>.\<close>

definition parseDate :: "'d date_fns \<Rightarrow> string \<Rightarrow> string" where
  "parseDate lib fechaText =
     (case parse_ddMMyyyy lib fechaText of
        None \<Rightarrow> fechaText
      | Some date \<Rightarrow>
          (case format_yyyyMMdd lib date of None \<Rightarrow> fechaText | Some out \<Rightarrow> out))"

text \<open>A date value: a calendar day, or the \<^verbatim>\<open>Invalid Date\<close> that a failed parse returns.\<close>

datatype js_date = InvalidDate | Date nat nat nat

definition leap_year :: "nat \<Rightarrow> bool" where
  "leap_year y = (y mod 4 = 0 \<and> (y mod 400 = 0 \<or> y mod 100 \<noteq> 0))"

definition days_in_month :: "nat \<Rightarrow> nat \<Rightarrow> nat" where
  "days_in_month y m =
     (if m = 2 then (if leap_year y then 29 else 28)
      else if m = 4 \<or> m = 6 \<or> m = 9 \<or> m = 11 then 30 else 31)"

definition valid_date :: "nat \<Rightarrow> nat \<Rightarrow> nat \<Rightarrow> bool" where
  "valid_date y m d = (1 \<le> m \<and> m \<le> 12 \<and> 1 \<le> d \<and> d \<le> days_in_month y m)"

definition digit_char :: "nat \<Rightarrow> char" where
  "digit_char n = ''0123456789'' ! n"

text \<open>The last \<open>w\<close> decimal digits of \<open>n\<close>, zero-padded.\<close>

fun pad_digits :: "nat \<Rightarrow> nat \<Rightarrow> string" where
  "pad_digits 0 n = []"
| "pad_digits (Suc w) n = pad_digits w (n div 10) @ [digit_char (n mod 10)]"

text \<open>
  Modelled from the spec: date-fns' \<^verbatim>\<open>parse\<close> for the pattern \<^verbatim>\<open>dd/MM/yyyy\<close>, which is not
  in the sources. Following the spec (day/month/year with 2-digit day and month, 4-digit
  year), a text parses when it is two digits, a slash, two digits, a slash and four
  digits that name a day of the calendar; any other text gives \<^verbatim>\<open>Invalid Date\<close>.
\<close>

fun spec_parse :: "string \<Rightarrow> js_date" where
  "spec_parse [d1, d2, s1, m1, m2, s2, y1, y2, y3, y4] =
     (if list_all is_digit [d1, d2, m1, m2, y1, y2, y3, y4] \<and> s1 = CHR ''/'' \<and> s2 = CHR ''/''
      then
        (let d = digits_value [d1, d2]; m = digits_value [m1, m2];
             y = digits_value [y1, y2, y3, y4]
         in if valid_date y m d then Date y m d else InvalidDate)
      else InvalidDate)"
| "spec_parse _ = InvalidDate"

text \<open>
  Modelled from the spec: date-fns' \<^verbatim>\<open>format\<close> for the pattern \<^verbatim>\<open>yyyy-MM-dd\<close>, which is
  not in the sources: the canonical form of a day, and a thrown error (the failure that
  \<^verbatim>\<open>extractFecha\<close> catches) for \<^verbatim>\<open>Invalid Date\<close>.
\<close>

fun spec_format :: "js_date \<Rightarrow> string option" where
  "spec_format InvalidDate = None"
| "spec_format (Date y m d) =
     Some (pad_digits 4 y @ ''-'' @ pad_digits 2 m @ ''-'' @ pad_digits 2 d)"

definition date_fns_spec :: "js_date date_fns" where
  "date_fns_spec =
     \<lparr>parse_ddMMyyyy = (\<lambda>text. Some (spec_parse text)), format_yyyyMMdd = spec_format\<rparr>"

section \<open>Record extractor (\<^verbatim>\<open>extractRowData\<close> and its helpers, src/utils.ts)\<close>

text \<open>
  A table row as the extractor sees it: for each selector the element it finds, \<open>None\<close>
  when the row has no such element; for an element the text contents and attributes
  that are read.
\<close>

record expediente_cell =
  textoEnlace :: "string option"
  expediente_div2 :: "string option"
  imgELicitacion :: bool
  deeplink_href :: "string option"

record tipo_cell =
  tipo_div1 :: "string option"
  tipo_div2 :: "string option"

record organo_cell =
  organo_text :: string
  organo_href :: "string option"

record row =
  tdExpediente :: "expediente_cell option"
  tdTipoContrato :: "tipo_cell option"
  tdEstado :: "string option"
  tdImporte :: "string option"
  tdFechaLimite :: "string option"
  tdOrganoContratacion :: "organo_cell option"

record expediente_rec =
  numero :: string
  descripcion :: string
  licitacionElectronica :: bool
  enlace :: string

record tipo_rec =
  tipo :: string
  subtipo :: string

record organo_rec =
  nombre :: string
  organo_enlace :: string

record listing =
  expediente :: expediente_rec
  tipoContrato :: tipo_rec
  estado :: string
  importe :: js_number
  fechaPresentacion :: string
  organoContratacion :: organo_rec

text \<open>\<^verbatim>\<open>row.$eval(selector, ...)\<close> throws when the selector finds no element.\<close>

datatype error = NoElement string

text \<open>\<^verbatim>\<open>el?.textContent?.trim() || ''\<close> and \<^verbatim>\<open>el?.href || ''\<close>.\<close>

definition text_or_empty :: "string option \<Rightarrow> string" where
  "text_or_empty el = (case el of None \<Rightarrow> [] | Some t \<Rightarrow> js_trim t)"

definition href_or_empty :: "string option \<Rightarrow> string" where
  "href_or_empty el = (case el of None \<Rightarrow> [] | Some h \<Rightarrow> h)"

definition extractExpediente :: "row \<Rightarrow> error + expediente_rec" where
  "extractExpediente r =
     (case tdExpediente r of
        None \<Rightarrow> Inl (NoElement ''.tdExpediente'')
      | Some cell \<Rightarrow>
          Inr \<lparr>numero = text_or_empty (textoEnlace cell),
               descripcion = text_or_empty (expediente_div2 cell),
               licitacionElectronica = imgELicitacion cell,
               enlace = href_or_empty (deeplink_href cell)\<rparr>)"

definition extractTipoContrato :: "row \<Rightarrow> error + tipo_rec" where
  "extractTipoContrato r =
     (case tdTipoContrato r of
        None \<Rightarrow> Inl (NoElement ''.tdTipoContrato'')
      | Some cell \<Rightarrow>
          Inr \<lparr>tipo = text_or_empty (tipo_div1 cell), subtipo = text_or_empty (tipo_div2 cell)\<rparr>)"

definition extractImporte :: "row \<Rightarrow> js_number" where
  "extractImporte r = parseAmount (extractText (tdImporte r))"

definition extractFecha :: "'d date_fns \<Rightarrow> row \<Rightarrow> string" where
  "extractFecha lib r = parseDate lib (extractText (tdFechaLimite r))"

definition extractOrganoContratacion :: "row \<Rightarrow> error + organo_rec" where
  "extractOrganoContratacion r =
     (case tdOrganoContratacion r of
        None \<Rightarrow> Inl (NoElement ''.tdOrganoContratacion'')
      | Some cell \<Rightarrow>
          Inr \<lparr>nombre = js_trim (organo_text cell),
               organo_enlace = href_or_empty (organo_href cell)\<rparr>)"

text \<open>The six extractions run in the order of the source; the first one that throws ends
  \<^verbatim>\<open>extractRowData\<close> with its error.\<close>

definition extractRowData :: "'d date_fns \<Rightarrow> row \<Rightarrow> error + listing" where
  "extractRowData lib r =
     (case extractExpediente r of
        Inl e \<Rightarrow> Inl e
      | Inr ex \<Rightarrow>
          (case extractTipoContrato r of
             Inl e \<Rightarrow> Inl e
           | Inr tc \<Rightarrow>
               (let es = extractText (tdEstado r);
                    im = extractImporte r;
                    fe = extractFecha lib r
                in case extractOrganoContratacion r of
                     Inl e \<Rightarrow> Inl e
                   | Inr oc \<Rightarrow>
                       Inr \<lparr>expediente = ex, tipoContrato = tc, estado = es, importe = im,
                            fechaPresentacion = fe, organoContratacion = oc\<rparr>)))"

text \<open>\<^verbatim>\<open>scrapeTable\<close>: a row whose extraction throws is logged and left out.\<close>

definition scrapeTable :: "'d date_fns \<Rightarrow> row list \<Rightarrow> listing list" where
  "scrapeTable lib rows =
     foldl (\<lambda>results r. case extractRowData lib r of
                           Inr result \<Rightarrow> results @ [result]
                         | Inl e \<Rightarrow> results) [] rows"

text \<open>Three concrete rows: a complete one, the same row with another text in the amount
  cell, and the same row without its \<^verbatim>\<open>.tdExpediente\<close> cell.\<close>

definition good_row :: row where
  "good_row =
     \<lparr>tdExpediente = Some \<lparr>textoEnlace = Some '' 2024/OBR/17 '', expediente_div2 = Some ''Obras de reforma'',
                            imgELicitacion = True, deeplink_href = Some ''https://example.org/deeplink/17''\<rparr>,
      tdTipoContrato = Some \<lparr>tipo_div1 = Some ''Obras'', tipo_div2 = None\<rparr>,
      tdEstado = Some ''Publicada'',
      tdImporte = Some ''1.234,56 EUR'',
      tdFechaLimite = Some ''31/12/2024'',
      tdOrganoContratacion = Some \<lparr>organo_text = '' Ayuntamiento '', organo_href = None\<rparr>\<rparr>"

definition row_with_importe :: "string \<Rightarrow> row" where
  "row_with_importe t = good_row\<lparr>tdImporte := Some t\<rparr>"

definition broken_row :: row where
  "broken_row = good_row\<lparr>tdExpediente := None\<rparr>"

section \<open>Paginated harvester (\<^verbatim>\<open>scrape\<close> of src/scraper.ts)\<close>

text \<open>
  What the pagination loop asks of the page, over an abstract state \<open>'s\<close> of the browser:
  the rows of the results table, the next-page control that is not disabled (\<open>None\<close> when
  \<^verbatim>\<open>page.$\<close> finds none), and the state after clicking it and waiting for the table.
\<close>

record ('s, 'b) page_access =
  table_rows :: "'s \<Rightarrow> row list"
  next_button :: "'s \<Rightarrow> 'b option"
  click_next :: "'b \<Rightarrow> 's \<Rightarrow> 's"

text \<open>
  The \<^verbatim>\<open>while (hasNextPage)\<close> loop of \<^verbatim>\<open>scrape\<close>, started once the results table is shown.
  Nothing bounds the number of pages, so the loop is a partial function: \<open>None\<close> means
  that it never ends. It returns \<^verbatim>\<open>allResults\<close> and the last page number.
\<close>

partial_function (option) scrape_loop ::
  "'d date_fns \<Rightarrow> ('s, 'b) page_access \<Rightarrow> 's \<Rightarrow> listing list \<Rightarrow> nat
     \<Rightarrow> (listing list \<times> nat) option" where
  "scrape_loop lib page s allResults pageNum =
     (let pageData = scrapeTable lib (table_rows page s);
          allResults' = allResults @ pageData
      in case next_button page s of
           Some nextButton \<Rightarrow>
             scrape_loop lib page (click_next page nextButton s) allResults' (pageNum + 1)
         | None \<Rightarrow> Some (allResults', pageNum))"

definition scrape :: "'d date_fns \<Rightarrow> ('s, 'b) page_access \<Rightarrow> 's \<Rightarrow> listing list option" where
  "scrape lib page s = map_option fst (scrape_loop lib page s [] 1)"

text \<open>\<open>pages_from page s ts\<close>: starting at \<open>s\<close>, clicking the next-page control leads through
  the states \<open>ts\<close> in turn, and the last state reached offers no such control.\<close>

fun pages_from :: "('s, 'b) page_access \<Rightarrow> 's \<Rightarrow> 's list \<Rightarrow> bool" where
  "pages_from page s [] = (next_button page s = None)"
| "pages_from page s (t # ts) =
     (case next_button page s of
        None \<Rightarrow> False
      | Some b \<Rightarrow> t = click_next page b s \<and> pages_from page t ts)"

text \<open>The rows of a page that extract, in order.\<close>

definition extracted_rows :: "'d date_fns \<Rightarrow> row list \<Rightarrow> listing list" where
  "extracted_rows lib rows =
     concat (map (\<lambda>r. case extractRowData lib r of Inr result \<Rightarrow> [result] | Inl e \<Rightarrow> []) rows)"

text \<open>A listing of two pages: the first shows a complete row and a broken one and offers
  the next-page control, the second shows one row and offers none.\<close>

definition two_pages :: "(nat, unit) page_access" where
  "two_pages =
     \<lparr>table_rows = (\<lambda>n. if n = 0 then [good_row, broken_row] else [row_with_importe ''12,50 EUR'']),
      next_button = (\<lambda>n. if n = 0 then Some () else None),
      click_next = (\<lambda>b n. Suc n)\<rparr>"

text \<open>A listing whose next-page control never disables.\<close>

definition endless_pages :: "(nat, unit) page_access" where
  "endless_pages =
     \<lparr>table_rows = (\<lambda>n. [good_row]), next_button = (\<lambda>n. Some ()), click_next = (\<lambda>b n. Suc n)\<rparr>"

section \<open>Tree expansion driver (\<^verbatim>\<open>expandAllNodes\<close> of src/selector.spec.ts)\<close>

text \<open>
  What the driver asks of the tree widget, over an abstract state \<open>'s\<close>: the expand
  controls found by \<^verbatim>\<open>page.$$\<close>, a control's visibility (\<open>None\<close> when \<^verbatim>\<open>isVisible\<close> throws),
  a click (the flag is \<open>False\<close> when \<^verbatim>\<open>click\<close> throws) and a pause of so many milliseconds.
\<close>

record ('s, 'b) tree_widget =
  expand_buttons :: "'s \<Rightarrow> 'b list"
  isVisible :: "'b \<Rightarrow> 's \<Rightarrow> bool option"
  click :: "'b \<Rightarrow> 's \<Rightarrow> bool \<times> 's"
  waitForTimeout :: "nat \<Rightarrow> 's \<Rightarrow> 's"

text \<open>The body of the inner \<^verbatim>\<open>for\<close> loop: errors are caught and logged.\<close>

definition click_button :: "('s, 'b) tree_widget \<Rightarrow> 's \<Rightarrow> 'b \<Rightarrow> 's" where
  "click_button w s button =
     (case isVisible w button s of
        None \<Rightarrow> s
      | Some visible \<Rightarrow>
          if visible then
            (case click w button s of
               (True, s') \<Rightarrow> waitForTimeout w 50 s'
             | (False, s') \<Rightarrow> s')
          else s)"

text \<open>One pass over the controls found, then the pause of 500 ms.\<close>

definition expand_round :: "('s, 'b) tree_widget \<Rightarrow> 's \<Rightarrow> 's" where
  "expand_round w s = waitForTimeout w 500 (foldl (click_button w) s (expand_buttons w s))"

definition maxIterations :: nat where
  "maxIterations = 100"

text \<open>The \<^verbatim>\<open>while (keepExpanding && iterations < maxIterations)\<close> loop; it returns the
  number of iterations that the driver logs and the final state of the widget.\<close>

function expand_loop :: "('s, 'b) tree_widget \<Rightarrow> bool \<Rightarrow> nat \<Rightarrow> 's \<Rightarrow> nat \<times> 's" where
  "expand_loop w keepExpanding iterations s =
     (if keepExpanding \<and> iterations < maxIterations then
        (if expand_buttons w s = [] then expand_loop w False iterations s
         else expand_loop w keepExpanding (Suc iterations) (expand_round w s))
      else (iterations, s))"
  by pat_completeness auto
termination
  by (relation "measure (\<lambda>(w, keepExpanding, iterations, s).
        (if keepExpanding then 1 else 0) + 2 * (maxIterations - iterations))") auto

declare expand_loop.simps [simp del]

definition expandAllNodes :: "('s, 'b) tree_widget \<Rightarrow> 's \<Rightarrow> nat \<times> 's" where
  "expandAllNodes w s = expand_loop w True 0 s"

text \<open>A widget with \<open>n\<close> levels left to expand: one visible control while \<open>n > 0\<close>, and a
  click opens one level.\<close>

definition levels_widget :: "(nat, unit) tree_widget" where
  "levels_widget =
     \<lparr>expand_buttons = (\<lambda>n. if n = 0 then [] else [()]),
      isVisible = (\<lambda>b n. Some True),
      click = (\<lambda>b n. (True, n - 1)),
      waitForTimeout = (\<lambda>ms n. n)\<rparr>"

text \<open>A widget in which every click reveals a new control.\<close>

definition endless_widget :: "(nat, unit) tree_widget" where
  "endless_widget =
     \<lparr>expand_buttons = (\<lambda>n. [()]),
      isVisible = (\<lambda>b n. Some True),
      click = (\<lambda>b n. (True, Suc n)),
      waitForTimeout = (\<lambda>ms n. n)\<rparr>"

section \<open>Tree reconstructor (\<^verbatim>\<open>scrapeCPVTree\<close>, two versions)\<close>

subsection \<open>Labels and levels\<close>

text \<open>
  \<^verbatim>\<open>text.match(/^(\d{8})?-?(.+)$/)\<close>. Without flags, \<^verbatim>\<open>.\<close> matches any code unit but a line
  terminator (below 256: LF and CR) and \<^verbatim>\<open>$\<close> matches at the end of the text only, so
  \<^verbatim>\<open>(.+)$\<close> succeeds at a position exactly when the rest of the text is not empty and holds
  no line terminator, and the group is then that rest.
\<close>

definition is_line_terminator :: "char \<Rightarrow> bool" where
  "is_line_terminator c = (c = CHR 0x0A \<or> c = CHR 0x0D)"

definition dot_plus_end :: "string \<Rightarrow> bool" where
  "dot_plus_end s = (s \<noteq> [] \<and> list_all (\<lambda>c. \<not> is_line_terminator c) s)"

definition after_hyphen :: "string \<Rightarrow> string option" where
  "after_hyphen s = (case s of [] \<Rightarrow> None | c # r \<Rightarrow> if c = CHR ''-'' then Some r else None)"

text \<open>\<^verbatim>\<open>-?(.+)$\<close> at a position, by backtracking: first with the hyphen consumed, then
  without. The result is group 2.\<close>

definition tail_match :: "string \<Rightarrow> string option" where
  "tail_match s =
     (case after_hyphen s of
        Some r \<Rightarrow> if dot_plus_end r then Some r else if dot_plus_end s then Some s else None
      | None \<Rightarrow> if dot_plus_end s then Some s else None)"

definition digits8 :: "string \<Rightarrow> bool" where
  "digits8 text = (8 \<le> length text \<and> list_all is_digit (take 8 text))"

text \<open>The whole match, by backtracking: first with group 1 taking eight digits, then with
  group 1 left out. The result is (group 1, group 2), \<open>None\<close> for no match.\<close>

definition label_match :: "string \<Rightarrow> (string option \<times> string) option" where
  "label_match text =
     (let without_code = (case tail_match text of None \<Rightarrow> None | Some g2 \<Rightarrow> Some (None, g2))
      in if digits8 text then
           (case tail_match (drop 8 text) of
              Some g2 \<Rightarrow> Some (Some (take 8 text), g2)
            | None \<Rightarrow> without_code)
         else without_code)"

text \<open>\<^verbatim>\<open>parseLabel\<close> returns the pair (code, description):
  \<^verbatim>\<open>match?.[1] || ''\<close> and \<^verbatim>\<open>match?.[2]?.trim() || text.trim()\<close>.\<close>

definition parseLabel :: "string \<Rightarrow> string \<times> string" where
  "parseLabel text =
     (case label_match text of
        None \<Rightarrow> ([], js_trim text)
      | Some (g1, g2) \<Rightarrow>
          (case g1 of None \<Rightarrow> [] | Some c \<Rightarrow> c,
           if js_trim g2 \<noteq> [] then js_trim g2 else js_trim text))"

text \<open>\<open>hyphen_led text\<close>: the text is a hyphen followed by a rest that is on one line and not
  blank.\<close>

definition hyphen_led :: "string \<Rightarrow> bool" where
  "hyphen_led text =
     (case after_hyphen text of None \<Rightarrow> False | Some r \<Rightarrow> dot_plus_end r \<and> js_trim r \<noteq> [])"

text \<open>
  A node of the rendered tree (a \<^verbatim>\<open>table.tree_nodeStyle\<close> element) as the reconstructor
  reads it: the text of its label (\<open>None\<close> when there is no label element or no text), the
  width in pixels found in the style of its \<^verbatim>\<open>td[width]\<close> cell (outer \<open>None\<close>: no such
  cell, \<^verbatim>\<open>$eval\<close> throws; inner \<open>None\<close>: no width in the style, read as 0), and the sibling
  indices from the document root down to the element.
\<close>

record tree_node_elem =
  label_text :: "string option"
  td_width :: "nat option option"
  dom_path :: "nat list"

text \<open>\<^verbatim>\<open>getNodeLevel\<close>: \<^verbatim>\<open>Math.floor(width / 19)\<close>; \<open>None\<close> when it throws.\<close>

definition getNodeLevel :: "tree_node_elem \<Rightarrow> nat option" where
  "getNodeLevel element =
     (case td_width element of
        None \<Rightarrow> None
      | Some w \<Rightarrow> Some ((case w of None \<Rightarrow> 0 | Some width \<Rightarrow> width) div 19))"

subsection \<open>The version that places nodes by level (src/unnamed/part_000)\<close>

datatype cpv_node = CPVNode (code: string) (description: string) (level: nat)
  (children: "cpv_node list")

text \<open>
  \<^verbatim>\<open>for (let i = 0; i < level - 1; i++) currentLevel = currentLevel[currentLevel.length - 1].children\<close>
  followed by \<^verbatim>\<open>currentLevel.push(cpvNode)\<close>: \<open>push_at n node currentLevel\<close> descends
  \<open>n\<close> times into the children of the last node and appends there. Reading the last
  element of an empty array gives \<^verbatim>\<open>undefined\<close>, whose \<^verbatim>\<open>.children\<close> throws a TypeError:
  \<open>None\<close>. The array reached is part of the tree, so the tree is rebuilt along the path.
\<close>

fun push_at :: "nat \<Rightarrow> cpv_node \<Rightarrow> cpv_node list \<Rightarrow> cpv_node list option" where
  "push_at 0 node currentLevel = Some (currentLevel @ [node])"
| "push_at (Suc n) node currentLevel =
     (if currentLevel = [] then None
      else
        (case push_at n node (children (last currentLevel)) of
           None \<Rightarrow> None
         | Some cs \<Rightarrow>
             Some (butlast currentLevel @
               [CPVNode (code (last currentLevel)) (description (last currentLevel))
                  (level (last currentLevel)) cs])))"

text \<open>The body of the \<^verbatim>\<open>for (const node of nodes)\<close> loop: \<^verbatim>\<open>continue\<close> and every caught
  error leave \<^verbatim>\<open>cpvData\<close> as it was.\<close>

definition add_node_depth :: "cpv_node list \<Rightarrow> tree_node_elem \<Rightarrow> cpv_node list" where
  "add_node_depth cpvData element =
     (case label_text element of
        None \<Rightarrow> cpvData
      | Some labelText \<Rightarrow>
          if labelText = [] then cpvData
          else
            (case getNodeLevel element of
               None \<Rightarrow> cpvData
             | Some lv \<Rightarrow>
                 (let cpvNode = CPVNode (fst (parseLabel labelText)) (snd (parseLabel labelText)) lv []
                  in if lv = 0 then cpvData @ [cpvNode]
                     else (case push_at (lv - 1) cpvNode cpvData of
                             None \<Rightarrow> cpvData
                           | Some cpvData' \<Rightarrow> cpvData'))))"

definition scrapeCPVTree_depth :: "tree_node_elem list \<Rightarrow> cpv_node list" where
  "scrapeCPVTree_depth nodes = foldl add_node_depth [] nodes"

text \<open>
  Where the version that places nodes by level puts a node: \<open>placed_ok d x\<close> says that
  \<open>x\<close>, standing at nesting depth \<open>d\<close> of the result, has level 0 or 1 when \<open>d = 0\<close> and
  level \<open>d + 1\<close> otherwise, and that its children stand likewise at depth \<open>d + 1\<close>.
\<close>

fun placed_ok :: "nat \<Rightarrow> cpv_node \<Rightarrow> bool" where
  "placed_ok d (CPVNode c ds l cs) =
     ((if d = 0 then l \<le> 1 else l = Suc d) \<and> list_all (placed_ok (Suc d)) cs)"

subsection \<open>The version that places nodes by document path (src/selector.spec.ts)\<close>

text \<open>
  Here a parent found in \<^verbatim>\<open>nodeMap\<close> is mutated while it is also reachable from
  \<^verbatim>\<open>rootNodes\<close>, so the node objects live in a store: a reference is an index into
  \<open>heap\<close>, and \<open>children\<close>, \<^verbatim>\<open>nodeMap\<close> and \<^verbatim>\<open>rootNodes\<close> hold references. \<^verbatim>\<open>nodeMap\<close> is an
  association list whose first entry for a key is the current one.
\<close>

record cpv_obj =
  obj_code :: string
  obj_description :: string
  obj_level :: nat
  obj_children :: "nat list"

record tree_state =
  heap :: "cpv_obj list"
  nodeMap :: "(nat list \<times> nat) list"
  rootNodes :: "nat list"

text \<open>The path key is the indices joined by hyphens, and the parent's key is the key
  without its last segment: on lists of indices, \<open>butlast\<close>.\<close>

definition add_node_path :: "tree_state \<Rightarrow> tree_node_elem \<Rightarrow> tree_state" where
  "add_node_path st element =
     (case label_text element of
        None \<Rightarrow> st
      | Some labelText \<Rightarrow>
          if labelText = [] then st
          else
            (case getNodeLevel element of
               None \<Rightarrow> st
             | Some lv \<Rightarrow>
                 (let cpvNode = length (heap st);
                      heap1 = heap st @
                        [\<lparr>obj_code = fst (parseLabel labelText),
                          obj_description = snd (parseLabel labelText),
                          obj_level = lv, obj_children = []\<rparr>];
                      path = dom_path element;
                      nodeMap1 = (path, cpvNode) # nodeMap st;
                      parentPath = butlast path
                  in case map_of nodeMap1 parentPath of
                       Some parent \<Rightarrow>
                         \<lparr>heap = heap1[parent := (heap1 ! parent)
                                    \<lparr>obj_children := obj_children (heap1 ! parent) @ [cpvNode]\<rparr>],
                          nodeMap = nodeMap1, rootNodes = rootNodes st\<rparr>
                     | None \<Rightarrow>
                         \<lparr>heap = heap1, nodeMap = nodeMap1,
                          rootNodes = rootNodes st @ [cpvNode]\<rparr>)))"

definition scrapeCPVTree :: "tree_node_elem list \<Rightarrow> tree_state" where
  "scrapeCPVTree nodes = foldl add_node_path \<lparr>heap = [], nodeMap = [], rootNodes = []\<rparr> nodes"

text \<open>A node element with a label, an indentation width in pixels and a document path.\<close>

definition node_elem :: "string \<Rightarrow> nat \<Rightarrow> nat list \<Rightarrow> tree_node_elem" where
  "node_elem label width path =
     \<lparr>label_text = Some label, td_width = Some (Some width), dom_path = path\<rparr>"

section \<open>Properties of the retry executor\<close>

lemma env_after_0: "env_after operation 0 s = s"
  by (simp add: env_after_def)

lemma env_after_Suc: "env_after operation (Suc j) s = env_after operation j (snd (operation s))"
  unfolding env_after_def by (simp only: funpow_Suc_right o_apply)

lemma outcome_0: "outcome operation 0 s = fst (operation s)"
  by (simp add: outcome_def env_after_0)

lemma outcome_Suc: "outcome operation (Suc j) s = outcome operation j (snd (operation s))"
  by (simp add: outcome_def env_after_Suc)

lemma backoff_trace_0: "backoff_trace a 0 = []"
  by (simp add: backoff_trace_def)

lemma backoff_trace_Suc:
  "backoff_trace a (Suc n) = [Invoke, Wait (a * 1000)] @ backoff_trace (Suc a) n"
  by (simp add: backoff_trace_def upt_rec [of a])

lemma count_backoff_trace:
  "length (filter (\<lambda>e. e = Invoke) (backoff_trace a n)) = n"
  by (induction n arbitrary: a) (simp_all add: backoff_trace_0 backoff_trace_Suc)

text \<open>Every attempt from \<open>a\<close> up to \<open>m\<close> throws: the loop calls the operation
  \<open>m - a + 1\<close> times and throws what the last call threw.\<close>

lemma retry_loop_all_fail:
  "a + n = m \<Longrightarrow> (\<forall>j\<le>n. isl (outcome operation j s)) \<Longrightarrow>
   retry_loop operation m a le s tr =
     (Inl (Some (projl (outcome operation n s))), env_after operation (Suc n) s,
      tr @ backoff_trace a n @ [Invoke])"
proof (induction n arbitrary: a le s tr)
  case 0
  then have "isl (fst (operation s))" by (simp add: outcome_0)
  then obtain e s' where "operation s = (Inl e, s')"
    by (cases "operation s") (auto simp: isl_def)
  with 0 show ?case
    by (simp add: outcome_0 env_after_Suc env_after_0 backoff_trace_0)
next
  case (Suc n)
  from Suc.prems(2) have "isl (outcome operation 0 s)" by simp
  then have "isl (fst (operation s))" by (simp add: outcome_0)
  then obtain e s' where op: "operation s = (Inl e, s')"
    by (cases "operation s") (auto simp: isl_def)
  have "isl (outcome operation (Suc j) s)" if "j \<le> n" for j
    using Suc.prems(2) that by simp
  then have rest: "\<forall>j\<le>n. isl (outcome operation j s')"
    by (simp add: outcome_Suc op)
  have "Suc a + n = m" using Suc.prems by simp
  from Suc.IH [OF this rest] Suc.prems(1) op show ?case
    by (simp add: outcome_Suc env_after_Suc [of _ "Suc n"] backoff_trace_Suc)
qed

text \<open>The first \<open>n\<close> attempts throw and the next one returns \<open>v\<close>.\<close>

lemma retry_loop_success:
  "a + n \<le> m \<Longrightarrow> (\<forall>j<n. isl (outcome operation j s)) \<Longrightarrow>
   outcome operation n s = Inr v \<Longrightarrow>
   retry_loop operation m a le s tr =
     (Inr v, env_after operation (Suc n) s, tr @ backoff_trace a n @ [Invoke])"
proof (induction n arbitrary: a le s tr)
  case 0
  then obtain s' where "operation s = (Inr v, s')"
    by (cases "operation s") (auto simp: outcome_0)
  with 0 show ?case
    by (simp add: env_after_Suc env_after_0 backoff_trace_0)
next
  case (Suc n)
  from Suc.prems(2) have "isl (outcome operation 0 s)" by simp
  then have "isl (fst (operation s))" by (simp add: outcome_0)
  then obtain e s' where op: "operation s = (Inl e, s')"
    by (cases "operation s") (auto simp: isl_def)
  have "isl (outcome operation (Suc j) s)" if "j < n" for j
    using Suc.prems(2) that by simp
  then have rest: "\<forall>j<n. isl (outcome operation j s')"
    by (simp add: outcome_Suc op)
  have v: "outcome operation n s' = Inr v" using Suc.prems(3) op by (simp add: outcome_Suc)
  have "Suc a + n \<le> m" using Suc.prems by simp
  from Suc.IH [OF this rest v] Suc.prems(1) op show ?case
    by (simp add: env_after_Suc [of _ "Suc n"] backoff_trace_Suc)
qed

text \<open>
  Claim C4. For every operation and every \<open>maxAttempts \<ge> 1\<close>: when every attempt throws,
  \<^verbatim>\<open>retryOperation\<close> calls the operation exactly \<open>maxAttempts\<close> times, pauses
  \<open>attempt * 1000\<close> ms after each failed attempt but the last, and throws the very error
  of the last attempt; when attempt \<open>k \<le> maxAttempts\<close> is the first to return, its value
  is returned after \<open>k\<close> calls and the pauses of the \<open>k - 1\<close> failures before it.
\<close>

theorem retryOperation_contract:
  "1 \<le> maxAttempts \<Longrightarrow>
   ((\<forall>j<maxAttempts. isl (outcome operation j s)) \<and>
      outcome operation (maxAttempts - 1) s = Inl e \<longrightarrow>
        retryOperation operation maxAttempts s =
          (Inl (Some e), env_after operation maxAttempts s,
           backoff_trace 1 (maxAttempts - 1) @ [Invoke]) \<and>
        length (filter (\<lambda>ev. ev = Invoke)
          (snd (snd (retryOperation operation maxAttempts s)))) = maxAttempts) \<and>
   (1 \<le> k \<and> k \<le> maxAttempts \<and> (\<forall>j<k - 1. isl (outcome operation j s)) \<and>
      outcome operation (k - 1) s = Inr v \<longrightarrow>
        retryOperation operation maxAttempts s =
          (Inr v, env_after operation k s, backoff_trace 1 (k - 1) @ [Invoke]))"
proof (intro conjI impI)
  assume m: "1 \<le> maxAttempts"
    and fail: "(\<forall>j<maxAttempts. isl (outcome operation j s)) \<and>
      outcome operation (maxAttempts - 1) s = Inl e"
  from m have sum: "1 + (maxAttempts - 1) = maxAttempts" by simp
  from m fail have all: "\<forall>j\<le>maxAttempts - 1. isl (outcome operation j s)" by auto
  from m have suc: "Suc (maxAttempts - 1) = maxAttempts" by simp
  from retry_loop_all_fail [OF sum all, of None "[]"] fail suc
  show res: "retryOperation operation maxAttempts s =
      (Inl (Some e), env_after operation maxAttempts s,
       backoff_trace 1 (maxAttempts - 1) @ [Invoke])"
    by (simp add: retryOperation_def)
  show "length (filter (\<lambda>ev. ev = Invoke)
      (snd (snd (retryOperation operation maxAttempts s)))) = maxAttempts"
    using m by (simp add: res count_backoff_trace)
next
  assume m: "1 \<le> maxAttempts"
    and ok: "1 \<le> k \<and> k \<le> maxAttempts \<and> (\<forall>j<k - 1. isl (outcome operation j s)) \<and>
      outcome operation (k - 1) s = Inr v"
  from ok have le: "1 + (k - 1) \<le> maxAttempts" and suc: "Suc (k - 1) = k" by simp_all
  from ok have pre: "\<forall>j<k - 1. isl (outcome operation j s)"
    and v: "outcome operation (k - 1) s = Inr v" by simp_all
  from retry_loop_success [OF le pre v, of None "[]"] suc
  show "retryOperation operation maxAttempts s =
      (Inr v, env_after operation k s, backoff_trace 1 (k - 1) @ [Invoke])"
    by (simp add: retryOperation_def)
qed

text \<open>The contract at \<open>maxAttempts = 3\<close>: an operation that always throws, and one that
  throws twice and returns on the third attempt.\<close>

theorem retryOperation_contract_witness:
  "retryOperation always_fail 3 0 =
     (Inl (Some 2), 3, [Invoke, Wait 1000, Invoke, Wait 2000, Invoke]) \<and>
   retryOperation flaky 3 0 =
     (Inr ''ok'', 3, [Invoke, Wait 1000, Invoke, Wait 2000, Invoke])"
proof -
  have m: "(1::nat) \<le> 3" by simp
  have tr: "backoff_trace (Suc 0) 2 = [Invoke, Wait 1000, Invoke, Wait 2000]"
    by (simp add: backoff_trace_def upt_rec)
  have f1: "(\<forall>j<3. isl (outcome always_fail j 0)) \<and> outcome always_fail (3 - 1) 0 = Inl 2"
    by (simp add: outcome_def env_after_def always_fail_def numeral_2_eq_2)
  have e1: "env_after always_fail 3 0 = 3"
    by (simp add: env_after_def always_fail_def numeral_3_eq_3)
  have f2: "1 \<le> (3::nat) \<and> 3 \<le> (3::nat) \<and> (\<forall>j<3 - 1. isl (outcome flaky j 0)) \<and>
      outcome flaky (3 - 1) 0 = Inr ''ok''"
    by (simp add: outcome_def env_after_def flaky_def numeral_2_eq_2 less_Suc_eq)
  have e2: "env_after flaky 3 0 = 3"
    by (simp add: env_after_def flaky_def numeral_3_eq_3)
  from retryOperation_contract [OF m, of always_fail 0 2 3 "''ok''"] f1
  have "retryOperation always_fail 3 0 =
      (Inl (Some 2), env_after always_fail 3 0, backoff_trace 1 (3 - 1) @ [Invoke])"
    by blast
  moreover from retryOperation_contract [OF m, of flaky 0 2 3 "''ok''"] f2
  have "retryOperation flaky 3 0 =
      (Inr ''ok'', env_after flaky 3 0, backoff_trace 1 (3 - 1) @ [Invoke])"
    by blast
  ultimately show ?thesis by (simp add: e1 e2 tr)
qed

section \<open>Properties of the amount conversion\<close>

lemma replace_first_append:
  "a \<notin> set xs \<Longrightarrow> replace_first a b (xs @ a # ys) = xs @ b # ys"
  by (induction xs) auto

lemma not_digit_dot: "\<not> is_digit (CHR ''.'')"
  by (simp add: is_digit_def)

lemma not_digit_comma: "\<not> is_digit (CHR '','')"
  by (simp add: is_digit_def)

text \<open>What \<^verbatim>\<open>parseFloat\<close> gives on digits followed by a dot.\<close>

lemma parseFloat_dot:
  "list_all is_digit a \<Longrightarrow>
   parseFloat (a @ CHR ''.'' # r) =
     (if a = [] \<and> takeWhile is_digit r = [] then NaN
      else Num (of_nat (digits_value a) +
             of_nat (digits_value (takeWhile is_digit r)) / 10 ^ length (takeWhile is_digit r)))"
proof -
  assume a: "list_all is_digit a"
  then have tw: "takeWhile is_digit (a @ CHR ''.'' # r) = a"
    by (simp add: takeWhile_append2 list_all_iff not_digit_dot)
  from a have dw: "dropWhile is_digit (a @ CHR ''.'' # r) = CHR ''.'' # r"
    by (simp add: dropWhile_append2 list_all_iff not_digit_dot)
  show ?thesis by (simp add: parseFloat_def tw dw Let_def)
qed

text \<open>After the dot, reading stops at the first code unit that is not a digit.\<close>

lemma parseFloat_stops:
  "list_all is_digit a \<Longrightarrow> list_all is_digit b \<Longrightarrow> \<not> is_digit x \<Longrightarrow>
   parseFloat (a @ CHR ''.'' # b @ x # c) = parseFloat (a @ CHR ''.'' # b)"
proof -
  assume a: "list_all is_digit a" and b: "list_all is_digit b" and x: "\<not> is_digit x"
  from b x have t1: "takeWhile is_digit (b @ x # c) = b"
    by (simp add: takeWhile_append2 list_all_iff)
  from b have t2: "takeWhile is_digit b = b"
    by (simp add: list_all_iff)
  show ?thesis
    by (simp only: parseFloat_dot [OF a] t1 t2)
qed

lemma kept_digits:
  "filter (\<lambda>c. is_digit c \<or> c = CHR '','') text = xs \<Longrightarrow> set ys \<subseteq> set xs \<Longrightarrow>
   CHR '','' \<notin> set ys \<Longrightarrow> list_all is_digit ys"
proof -
  assume f: "filter (\<lambda>c. is_digit c \<or> c = CHR '','') text = xs"
    and sub: "set ys \<subseteq> set xs" and nc: "CHR '','' \<notin> set ys"
  have "is_digit y" if "y \<in> set ys" for y
  proof -
    from that sub have "y \<in> set (filter (\<lambda>c. is_digit c \<or> c = CHR '','') text)"
      unfolding f by blast
    then have "is_digit y \<or> y = CHR '',''" by simp
    with that nc show ?thesis by blast
  qed
  then show ?thesis by (simp add: list_all_iff)
qed

text \<open>The examples of the spec on which the conversion gives the expected number.\<close>

lemma parseAmount_examples:
  "parseAmount ''1.234,56 EUR'' = Num (123456 / 100)"
  "parseAmount '''' = Num 0"
  "parseAmount ''12,50 EUR'' = Num (125 / 10)"
  by (simp_all add: parseAmount_def numericValue_def parseFloat_def is_digit_def
      digits_value_def digit_val_def)

text \<open>
  Claim C7, at the input where the code departs from it. The claim: \<^verbatim>\<open>parseAmount\<close> returns 0
  when what is left after stripping is empty or not numeric. For the cell text
  \<^verbatim>\<open>N/A, ver pliego\<close> stripping leaves a lone comma, which becomes a lone dot: the string
  is not empty, so \<^verbatim>\<open>parseFloat\<close> is called, and the result is \<^verbatim>\<open>NaN\<close>, not 0.
\<close>

theorem parseAmount_lone_comma:
  "numericValue ''N/A, ver pliego'' = ''.'' \<and> parseAmount ''N/A, ver pliego'' = NaN \<and>
   parseAmount '','' = NaN"
  by (simp add: parseAmount_def numericValue_def parseFloat_def is_digit_def)

text \<open>
  Claim C10. When the stripped text holds two commas or more, say it is \<open>a , b , c\<close> with
  no comma in \<open>a\<close> and \<open>b\<close>, only the leftmost comma becomes a dot, and the number returned
  is the one read from \<open>a . b\<close>: what follows the second comma does not contribute.
\<close>

theorem parseAmount_second_comma:
  assumes "filter (\<lambda>c. is_digit c \<or> c = CHR '','') text = a @ '','' @ b @ '','' @ c"
    and "CHR '','' \<notin> set a" and "CHR '','' \<notin> set b"
  shows "numericValue text = a @ ''.'' @ b @ '','' @ c \<and>
         parseAmount text = parseFloat (a @ ''.'' @ b)"
proof -
  have a: "list_all is_digit a"
    by (rule kept_digits [OF assms(1) _ assms(2)]) auto
  have b: "list_all is_digit b"
    by (rule kept_digits [OF assms(1) _ assms(3)]) auto
  have nv: "numericValue text = a @ ''.'' @ b @ '','' @ c"
    using assms(1,2) by (simp add: numericValue_def replace_first_append)
  have "parseAmount text = parseFloat (a @ CHR ''.'' # b @ CHR '','' # c)"
    by (simp add: parseAmount_def nv)
  also have "\<dots> = parseFloat (a @ CHR ''.'' # b)"
    by (rule parseFloat_stops [OF a b not_digit_comma])
  finally show ?thesis using nv by simp
qed

text \<open>The example of the claim, and the same text with other digits after the second
  comma.\<close>

theorem parseAmount_second_comma_witness:
  "numericValue ''1,234,56'' = ''1.234,56'' \<and> parseAmount ''1,234,56'' = Num (1234 / 1000) \<and>
   parseAmount ''1,234,99'' = Num (1234 / 1000)"
proof -
  have k: "filter (\<lambda>c. is_digit c \<or> c = CHR '','') ''1,234,56'' = ''1'' @ '','' @ ''234'' @ '','' @ ''56''"
    "filter (\<lambda>c. is_digit c \<or> c = CHR '','') ''1,234,99'' = ''1'' @ '','' @ ''234'' @ '','' @ ''99''"
    by (simp_all add: is_digit_def)
  have v: "parseFloat (''1'' @ ''.'' @ ''234'') = Num (1234 / 1000)"
    by (simp add: parseFloat_def is_digit_def digits_value_def digit_val_def)
  from parseAmount_second_comma [OF k(1)] parseAmount_second_comma [OF k(2)] v
  show ?thesis by simp
qed

section \<open>Properties of the date conversion\<close>

lemma lt10_cases: "n < 10 \<Longrightarrow> n \<in> {0, 1, 2, 3, 4, 5, 6, 7, 8, 9::nat}"
  by auto

lemma digit_val_digit_char: "n < 10 \<Longrightarrow> digit_val (digit_char n) = n"
  using lt10_cases [of n] by (auto simp: digit_val_def digit_char_def)

lemma is_digit_digit_char: "n < 10 \<Longrightarrow> is_digit (digit_char n)"
  using lt10_cases [of n] by (auto simp: is_digit_def digit_char_def)

lemma pad_digits_2: "pad_digits 2 n = [digit_char (n div 10 mod 10), digit_char (n mod 10)]"
  by (simp add: numeral_2_eq_2)

lemma pad_digits_4:
  "pad_digits 4 n = [digit_char (n div 10 div 10 div 10 mod 10),
     digit_char (n div 10 div 10 mod 10), digit_char (n div 10 mod 10), digit_char (n mod 10)]"
proof -
  have e: "(4::nat) = Suc (Suc (Suc (Suc 0)))" by simp
  show ?thesis unfolding e by (simp del: div_mult2_eq)
qed

lemma digits_value_2: "digits_value [a, b] = 10 * digit_val a + digit_val b"
  by (simp add: digits_value_def)

lemma digits_value_4:
  "digits_value [a, b, c, d] = 1000 * digit_val a + 100 * digit_val b + 10 * digit_val c + digit_val d"
  by (simp add: digits_value_def)

lemma digits_value_pad_2: "n < 100 \<Longrightarrow> digits_value (pad_digits 2 n) = n"
  by (simp add: pad_digits_2 digits_value_2 digit_val_digit_char)

lemma digits_value_pad_4: "n < 10000 \<Longrightarrow> digits_value (pad_digits 4 n) = n"
proof -
  assume n: "n < 10000"
  define q1 where "q1 = n div 10"
  define q2 where "q2 = q1 div 10"
  define q3 where "q3 = q2 div 10"
  have e0: "n = 10 * q1 + n mod 10" by (simp add: q1_def)
  have e1: "q1 = 10 * q2 + q1 mod 10" by (simp add: q2_def)
  have e2: "q2 = 10 * q3 + q2 mod 10" by (simp add: q3_def)
  from n e0 have "q1 < 1000" by arith
  with e1 have "q2 < 100" by arith
  with e2 have "q3 < 10" by arith
  then have e3: "q3 mod 10 = q3" by simp
  have "digits_value (pad_digits 4 n) =
      1000 * (q3 mod 10) + 100 * (q2 mod 10) + 10 * (q1 mod 10) + n mod 10"
    unfolding q3_def q2_def q1_def
    by (simp only: pad_digits_4 digits_value_4 digit_val_digit_char mod_less_divisor zero_less_numeral)
  also have "\<dots> = n" using e0 e1 e2 e3 by arith
  finally show ?thesis .
qed

lemma valid_date_bounds: "valid_date y m d \<Longrightarrow> m < 100 \<and> d < 100"
  by (auto simp: valid_date_def days_in_month_def split: if_splits)

lemma spec_parse_printed:
  assumes "valid_date y m d" and "y < 10000"
  shows "spec_parse (pad_digits 2 d @ ''/'' @ pad_digits 2 m @ ''/'' @ pad_digits 4 y) = Date y m d"
proof -
  from valid_date_bounds [OF assms(1)] have m: "m < 100" and d: "d < 100" by simp_all
  have dv: "digits_value [digit_char (d div 10 mod 10), digit_char (d mod 10)] = d"
    using digits_value_pad_2 [OF d] by (simp only: pad_digits_2)
  have mv: "digits_value [digit_char (m div 10 mod 10), digit_char (m mod 10)] = m"
    using digits_value_pad_2 [OF m] by (simp only: pad_digits_2)
  have yv: "digits_value [digit_char (y div 10 div 10 div 10 mod 10),
      digit_char (y div 10 div 10 mod 10), digit_char (y div 10 mod 10), digit_char (y mod 10)] = y"
    using digits_value_pad_4 [OF assms(2)] by (simp only: pad_digits_4)
  have dig: "list_all is_digit [digit_char (d div 10 mod 10), digit_char (d mod 10),
      digit_char (m div 10 mod 10), digit_char (m mod 10),
      digit_char (y div 10 div 10 div 10 mod 10), digit_char (y div 10 div 10 mod 10),
      digit_char (y div 10 mod 10), digit_char (y mod 10)]"
    by (simp add: is_digit_digit_char del: div_mult2_eq)
  have "pad_digits 2 d @ ''/'' @ pad_digits 2 m @ ''/'' @ pad_digits 4 y =
      [digit_char (d div 10 mod 10), digit_char (d mod 10), CHR ''/'',
       digit_char (m div 10 mod 10), digit_char (m mod 10), CHR ''/'',
       digit_char (y div 10 div 10 div 10 mod 10), digit_char (y div 10 div 10 mod 10),
       digit_char (y div 10 mod 10), digit_char (y mod 10)]"
    by (simp only: pad_digits_2 pad_digits_4 append.simps)
  then show ?thesis
    by (simp only: spec_parse.simps dig dv mv yv Let_def assms(1) simp_thms if_True)
qed

text \<open>
  Claim C8. A text in the source pattern, two-digit day, slash, two-digit month, slash,
  four-digit year, is mapped to the canonical form of that day: year, month and day
  joined by hyphens. A text that fails to parse is returned unchanged, and nothing is
  thrown: with the library as the spec describes it, and with any library whose \<^verbatim>\<open>parse\<close>
  throws or returns a date on which \<^verbatim>\<open>format\<close> throws.
\<close>

theorem parseDate_contract:
  "(valid_date y m d \<and> y < 10000 \<longrightarrow>
      parseDate date_fns_spec (pad_digits 2 d @ ''/'' @ pad_digits 2 m @ ''/'' @ pad_digits 4 y) =
        pad_digits 4 y @ ''-'' @ pad_digits 2 m @ ''-'' @ pad_digits 2 d) \<and>
   (spec_parse text = InvalidDate \<longrightarrow> parseDate date_fns_spec text = text) \<and>
   ((case parse_ddMMyyyy lib text of None \<Rightarrow> True | Some date \<Rightarrow> format_yyyyMMdd lib date = None)
      \<longrightarrow> parseDate lib text = text)"
proof (intro conjI impI)
  assume "valid_date y m d \<and> y < 10000"
  then have "spec_parse (pad_digits 2 d @ ''/'' @ pad_digits 2 m @ ''/'' @ pad_digits 4 y) = Date y m d"
    using spec_parse_printed [of y m d] by blast
  then show "parseDate date_fns_spec (pad_digits 2 d @ ''/'' @ pad_digits 2 m @ ''/'' @ pad_digits 4 y) =
        pad_digits 4 y @ ''-'' @ pad_digits 2 m @ ''-'' @ pad_digits 2 d"
    by (simp add: parseDate_def date_fns_spec_def)
next
  assume "spec_parse text = InvalidDate"
  then show "parseDate date_fns_spec text = text"
    by (simp add: parseDate_def date_fns_spec_def)
next
  assume "case parse_ddMMyyyy lib text of None \<Rightarrow> True | Some date \<Rightarrow> format_yyyyMMdd lib date = None"
  then show "parseDate lib text = text"
    by (simp add: parseDate_def split: option.splits)
qed

text \<open>The two examples of the spec.\<close>

theorem parseDate_contract_witness:
  "parseDate date_fns_spec ''31/12/2024'' = ''2024-12-31'' \<and>
   parseDate date_fns_spec ''not a date'' = ''not a date''"
proof -
  have p: "pad_digits 2 31 @ ''/'' @ pad_digits 2 12 @ ''/'' @ pad_digits 4 2024 = ''31/12/2024''"
    by (simp add: pad_digits_2 pad_digits_4 digit_char_def)
  have q: "pad_digits 4 2024 @ ''-'' @ pad_digits 2 12 @ ''-'' @ pad_digits 2 31 = ''2024-12-31''"
    by (simp add: pad_digits_2 pad_digits_4 digit_char_def)
  have v: "valid_date 2024 12 31 \<and> (2024::nat) < 10000"
    by (simp add: valid_date_def days_in_month_def)
  have i: "spec_parse ''not a date'' = InvalidDate"
    by (simp add: is_digit_def)
  from parseDate_contract [of 2024 12 31 "''not a date''" date_fns_spec] v i
  have "parseDate date_fns_spec
        (pad_digits 2 31 @ ''/'' @ pad_digits 2 12 @ ''/'' @ pad_digits 4 2024) =
      pad_digits 4 2024 @ ''-'' @ pad_digits 2 12 @ ''-'' @ pad_digits 2 31 \<and>
    parseDate date_fns_spec ''not a date'' = ''not a date''"
    by blast
  then show ?thesis by (simp only: p q)
qed

section \<open>Properties of the label parser\<close>

text \<open>
  Claim C9, as amended. For every label made of eight digits, a hyphen and a rest that
  holds no line terminator and is not blank, \<^verbatim>\<open>parseLabel\<close> returns the eight digits as code
  and the trimmed rest as description. For every label that does not start with eight
  digits, it returns the empty code, and as description the whole trimmed text, unless
  the label is a hyphen followed by a rest that is on one line and not blank: the
  description is then that rest, trimmed.
\<close>

theorem parseLabel_contract:
  "(length c8 = 8 \<and> list_all is_digit c8 \<and> list_all (\<lambda>c. \<not> is_line_terminator c) rest \<and>
      js_trim rest \<noteq> [] \<longrightarrow>
        parseLabel (c8 @ ''-'' @ rest) = (c8, js_trim rest)) \<and>
   (\<not> digits8 text \<and> \<not> hyphen_led text \<longrightarrow> parseLabel text = ([], js_trim text)) \<and>
   (\<not> digits8 text \<and> hyphen_led text \<longrightarrow> parseLabel text = ([], js_trim (tl text)))"
proof (intro conjI impI)
  assume h: "length c8 = 8 \<and> list_all is_digit c8 \<and>
    list_all (\<lambda>c. \<not> is_line_terminator c) rest \<and> js_trim rest \<noteq> []"
  then have "rest \<noteq> []" by (auto simp: js_trim_def)
  with h have dpe: "dot_plus_end rest" by (simp add: dot_plus_end_def)
  from h have d8: "digits8 (c8 @ ''-'' @ rest)" by (simp add: digits8_def)
  from h have tk: "take 8 (c8 @ ''-'' @ rest) = c8" and dr: "drop 8 (c8 @ ''-'' @ rest) = CHR ''-'' # rest"
    by simp_all
  have tm: "tail_match (CHR ''-'' # rest) = Some rest"
    using dpe by (simp add: tail_match_def after_hyphen_def)
  have "label_match (c8 @ ''-'' @ rest) = Some (Some c8, rest)"
    unfolding label_match_def Let_def by (simp only: d8 tk dr tm if_True option.case)
  with h show "parseLabel (c8 @ ''-'' @ rest) = (c8, js_trim rest)"
    by (simp add: parseLabel_def)
next
  assume h: "\<not> digits8 text \<and> \<not> hyphen_led text"
  show "parseLabel text = ([], js_trim text)"
  proof (cases "after_hyphen text")
    case None
    with h have "label_match text = (if dot_plus_end text then Some (None, text) else None)"
      by (simp add: label_match_def tail_match_def)
    then show ?thesis by (simp add: parseLabel_def)
  next
    case (Some r)
    with h have blank: "dot_plus_end r \<longrightarrow> js_trim r = []"
      by (simp add: hyphen_led_def)
    from h Some have "label_match text =
        (if dot_plus_end r then Some (None, r)
         else if dot_plus_end text then Some (None, text) else None)"
      by (simp add: label_match_def tail_match_def)
    with blank show ?thesis by (simp add: parseLabel_def)
  qed
next
  assume h: "\<not> digits8 text \<and> hyphen_led text"
  then obtain r where r: "after_hyphen text = Some r" and dpe: "dot_plus_end r"
    and nb: "js_trim r \<noteq> []"
    by (auto simp: hyphen_led_def split: option.splits)
  from r have tl: "tl text = r"
    by (auto simp: after_hyphen_def split: list.splits if_splits)
  from h r dpe have "label_match text = Some (None, r)"
    by (simp add: label_match_def tail_match_def)
  with nb tl show "parseLabel text = ([], js_trim (tl text))"
    by (simp add: parseLabel_def)
qed

text \<open>A label with a code and a label without one.\<close>

theorem parseLabel_contract_witness:
  "parseLabel ''45000000-Trabajos de construccion'' = (''45000000'', ''Trabajos de construccion'') \<and>
   parseLabel ''Sin codigo'' = ([], ''Sin codigo'') \<and>
   parseLabel ''-abc'' = ([], ''abc'')"
proof -
  have h1: "length ''45000000'' = 8 \<and> list_all is_digit ''45000000'' \<and>
      list_all (\<lambda>c. \<not> is_line_terminator c) ''Trabajos de construccion'' \<and>
      js_trim ''Trabajos de construccion'' \<noteq> []"
    by (simp add: is_digit_def is_line_terminator_def js_trim_def is_space_def)
  have h2: "\<not> digits8 ''Sin codigo'' \<and> \<not> hyphen_led ''Sin codigo''"
    by (simp add: digits8_def is_digit_def hyphen_led_def after_hyphen_def)
  have h3: "\<not> digits8 ''-abc'' \<and> hyphen_led ''-abc''"
    by (simp add: digits8_def hyphen_led_def after_hyphen_def dot_plus_end_def
        is_line_terminator_def js_trim_def is_space_def)
  have t: "js_trim ''Trabajos de construccion'' = ''Trabajos de construccion''"
    "js_trim ''Sin codigo'' = ''Sin codigo''" "js_trim ''abc'' = ''abc''"
    by (simp_all add: js_trim_def is_space_def)
  from parseLabel_contract [of "''45000000''" "''Trabajos de construccion''" "''Sin codigo''"] h1 h2
  have "parseLabel (''45000000'' @ ''-'' @ ''Trabajos de construccion'') =
      (''45000000'', js_trim ''Trabajos de construccion'') \<and>
    parseLabel ''Sin codigo'' = ([], js_trim ''Sin codigo'')"
    by blast
  moreover from parseLabel_contract [of "''45000000''" "''Trabajos de construccion''" "''-abc''"] h3
  have "parseLabel ''-abc'' = ([], js_trim (tl ''-abc''))"
    by blast
  ultimately show ?thesis by (simp add: t)
qed

text \<open>
  The claim as first stated fails. The label \<^verbatim>\<open>-abc\<close> has no leading code, yet its
  description is \<^verbatim>\<open>abc\<close>, not the whole trimmed text: the optional hyphen of the pattern
  is consumed. The label \<^verbatim>\<open>12345678-\<close> followed by two spaces has the form code, hyphen,
  rest, yet its description is \<^verbatim>\<open>12345678-\<close>, not the (empty) trimmed rest: a blank
  group 2 falls back to the whole trimmed text.
\<close>

theorem parseLabel_counterexample:
  "\<not> digits8 ''-abc'' \<and> parseLabel ''-abc'' \<noteq> ([], js_trim ''-abc'') \<and>
   parseLabel (''12345678'' @ ''-'' @ ''  '') \<noteq> (''12345678'', js_trim ''  '')"
  by (simp add: parseLabel_def label_match_def tail_match_def after_hyphen_def digits8_def
      dot_plus_end_def is_line_terminator_def is_digit_def js_trim_def is_space_def)

lemma parseLabel_values:
  "parseLabel ''-abc'' = ([], ''abc'')"
  "parseLabel ''12345678-  '' = (''12345678'', ''12345678-'')"
  by (simp_all add: parseLabel_def label_match_def tail_match_def after_hyphen_def digits8_def
      dot_plus_end_def is_line_terminator_def is_digit_def js_trim_def is_space_def)

section \<open>Properties of the record extractor\<close>

text \<open>\<^verbatim>\<open>parseFloat\<close> gives \<^verbatim>\<open>NaN\<close> or a number that is not negative.\<close>

lemma parseFloat_range: "parseFloat s = NaN \<or> (\<exists>q. 0 \<le> q \<and> parseFloat s = Num q)"
  by (simp add: parseFloat_def Let_def split: list.split)

lemma parseAmount_range: "parseAmount t = NaN \<or> (\<exists>q. 0 \<le> q \<and> parseAmount t = Num q)"
  using parseFloat_range [of "numericValue t"] by (simp add: parseAmount_def Let_def)

lemma takeWhile_empty_iff: "takeWhile P r = [] \<longleftrightarrow> (r = [] \<or> \<not> P (hd r))"
  by (cases r) auto

lemma parseFloat_leading_digit: "is_digit c \<Longrightarrow> parseFloat (c # r) \<noteq> NaN"
  by (simp add: parseFloat_def Let_def split: list.split)

text \<open>The conversion gives \<^verbatim>\<open>NaN\<close> exactly when what is left after stripping starts with a
  comma that no digit follows.\<close>

lemma parseAmount_nan_iff:
  "parseAmount t = NaN \<longleftrightarrow>
     (\<exists>r. filter (\<lambda>c. is_digit c \<or> c = CHR '','') t = CHR '','' # r \<and>
          (r = [] \<or> \<not> is_digit (hd r)))"
proof (cases "filter (\<lambda>c. is_digit c \<or> c = CHR '','') t")
  case Nil
  then show ?thesis by (simp add: parseAmount_def numericValue_def)
next
  case (Cons c r)
  then have "c \<in> set (filter (\<lambda>c. is_digit c \<or> c = CHR '','') t)" by simp
  then have c: "is_digit c \<or> c = CHR '',''" by simp
  show ?thesis
  proof (cases "c = CHR '',''")
    case True
    have "parseFloat (CHR ''.'' # r) = NaN \<longleftrightarrow> takeWhile is_digit r = []"
      using parseFloat_dot [of "[]" r] by simp
    with Cons True show ?thesis
      by (simp add: parseAmount_def numericValue_def takeWhile_empty_iff)
  next
    case False
    with c have d: "is_digit c" by simp
    from Cons False have "numericValue t = c # replace_first (CHR '','') (CHR ''.'') r"
      by (simp add: numericValue_def)
    with parseFloat_leading_digit [OF d] Cons False show ?thesis
      by (simp add: parseAmount_def)
  qed
qed

text \<open>A row that has the three cells read with \<^verbatim>\<open>$eval\<close> yields a complete record.\<close>

lemma extractRowData_well_formed:
  assumes "tdExpediente r \<noteq> None" and "tdTipoContrato r \<noteq> None"
    and "tdOrganoContratacion r \<noteq> None"
  shows "\<exists>result. extractRowData lib r = Inr result \<and>
           estado result = extractText (tdEstado r) \<and>
           importe result = parseAmount (extractText (tdImporte r)) \<and>
           fechaPresentacion result = parseDate lib (extractText (tdFechaLimite r))"
  using assms
  by (auto simp: extractRowData_def extractExpediente_def extractTipoContrato_def
      extractOrganoContratacion_def extractImporte_def extractFecha_def Let_def)

lemma extractRowData_missing:
  "tdExpediente r = None \<or> tdTipoContrato r = None \<or> tdOrganoContratacion r = None \<Longrightarrow>
   isl (extractRowData lib r)"
  by (auto simp: extractRowData_def extractExpediente_def extractTipoContrato_def
      extractOrganoContratacion_def Let_def split: option.splits)

text \<open>
  Claim C5, at the input where the code departs from it. The claim: for every well-formed
  row the amount of the record is a non-negative number, and exactly 0 when the cell
  text cannot be parsed. The row below has every cell, and its amount cell reads
  \<^verbatim>\<open>N/A, ver pliego\<close>: the record is returned, and its amount is \<^verbatim>\<open>NaN\<close>.
\<close>

theorem extractRowData_importe_nan:
  "tdExpediente (row_with_importe ''N/A, ver pliego'') \<noteq> None \<and>
   tdTipoContrato (row_with_importe ''N/A, ver pliego'') \<noteq> None \<and>
   tdOrganoContratacion (row_with_importe ''N/A, ver pliego'') \<noteq> None \<and>
   map_sum id importe (extractRowData lib (row_with_importe ''N/A, ver pliego'')) = Inr NaN"
  by (simp add: row_with_importe_def good_row_def extractRowData_def extractExpediente_def
      extractTipoContrato_def extractOrganoContratacion_def extractImporte_def extractText_def
      js_trim_def is_space_def parseAmount_def numericValue_def parseFloat_def is_digit_def)

lemma good_row_listing:
  "extractRowData date_fns_spec good_row =
     Inr \<lparr>expediente = \<lparr>numero = ''2024/OBR/17'', descripcion = ''Obras de reforma'',
                         licitacionElectronica = True, enlace = ''https://example.org/deeplink/17''\<rparr>,
          tipoContrato = \<lparr>tipo = ''Obras'', subtipo = []\<rparr>,
          estado = ''Publicada'',
          importe = Num (123456 / 100),
          fechaPresentacion = ''2024-12-31'',
          organoContratacion = \<lparr>nombre = ''Ayuntamiento'', organo_enlace = []\<rparr>\<rparr>"
  by (simp add: good_row_def extractRowData_def extractExpediente_def
      extractTipoContrato_def extractOrganoContratacion_def extractImporte_def extractText_def
      extractFecha_def text_or_empty_def href_or_empty_def
      js_trim_def is_space_def parseAmount_def numericValue_def parseFloat_def is_digit_def
      digits_value_def digit_val_def parseDate_def date_fns_spec_def valid_date_def days_in_month_def
      digit_char_def pad_digits_2 pad_digits_4 leap_year_def)


section \<open>Properties of the paginated harvester\<close>

lemma scrapeTable_foldl:
  "foldl (\<lambda>results r. case extractRowData lib r of
                        Inr result \<Rightarrow> results @ [result]
                      | Inl e \<Rightarrow> results) acc rows = acc @ extracted_rows lib rows"
  by (induction rows arbitrary: acc) (simp_all add: extracted_rows_def split: sum.split)

lemma scrapeTable_extracted: "scrapeTable lib rows = extracted_rows lib rows"
  by (simp add: scrapeTable_def scrapeTable_foldl)

lemma set_extracted_rows:
  "set (extracted_rows lib rows) = {result. \<exists>r \<in> set rows. extractRowData lib r = Inr result}"
  by (auto simp: extracted_rows_def split: sum.splits)

text \<open>Along a finite run of pages the loop returns, with the rows of the pages in order.\<close>

lemma scrape_loop_pages:
  "pages_from page s ts \<Longrightarrow>
   scrape_loop lib page s acc n =
     Some (acc @ concat (map (\<lambda>t. extracted_rows lib (table_rows page t)) (s # ts)),
           n + length ts)"
proof (induction ts arbitrary: s acc n)
  case Nil
  then show ?case
    by (subst scrape_loop.simps) (simp add: scrapeTable_extracted)
next
  case (Cons t ts)
  from Cons.prems obtain b where b: "next_button page s = Some b"
    and t: "t = click_next page b s" and rest: "pages_from page t ts"
    by (auto split: option.splits)
  show ?case
    by (subst scrape_loop.simps) (simp add: b t [symmetric] Cons.IH [OF rest] scrapeTable_extracted)
qed

text \<open>The loop returns only if some page without a next-page control is reached.\<close>

lemma scrape_loop_returns:
  assumes "scrape_loop lib page s acc n = Some res"
  shows "\<exists>ts. pages_from page s ts"
proof (rule scrape_loop.raw_induct
    [where P = "\<lambda>lib page s acc n res. \<exists>ts. pages_from page s ts", OF _ assms])
  fix f lib page s acc n res
  assume IH: "\<And>lib page s acc n res. f lib page s acc n = Some res \<Longrightarrow>
      \<exists>ts. pages_from page s ts"
    and body: "(let pageData = scrapeTable lib (table_rows page s);
          allResults' = acc @ pageData
      in case next_button page s of None \<Rightarrow> Some (allResults', n)
         | Some nextButton \<Rightarrow>
             f lib page (click_next page nextButton s) allResults' (n + 1)) = Some res"
  show "\<exists>ts. pages_from page s ts"
  proof (cases "next_button page s")
    case None
    then have "pages_from page s []" by simp
    then show ?thesis ..
  next
    case (Some b)
    with body have "f lib page (click_next page b s)
        (acc @ scrapeTable lib (table_rows page s)) (n + 1) = Some res"
      by (simp add: Let_def)
    from IH [OF this] obtain ts where "pages_from page (click_next page b s) ts" ..
    with Some have "pages_from page s (click_next page b s # ts)" by simp
    then show ?thesis ..
  qed
qed

text \<open>
  Claim C3. When clicking through from the first page leads through finitely many pages,
  each but the last offering a next-page control that is not disabled, \<^verbatim>\<open>scrape\<close> returns
  the rows of the pages that extract, page after page and in the order of each page,
  with the rows whose extraction throws left out. The loop ends only at a page that
  offers no such control: if \<^verbatim>\<open>scrape\<close> returns at all, such a run of pages exists.
\<close>

theorem scrape_concatenates:
  "(pages_from page s ts \<longrightarrow>
      scrape lib page s =
        Some (concat (map (\<lambda>t. extracted_rows lib (table_rows page t)) (s # ts)))) \<and>
   (scrape lib page s \<noteq> None \<longrightarrow> (\<exists>ts. pages_from page s ts))"
proof (intro conjI impI)
  assume "pages_from page s ts"
  from scrape_loop_pages [OF this, of lib "[]" 1]
  show "scrape lib page s =
      Some (concat (map (\<lambda>t. extracted_rows lib (table_rows page t)) (s # ts)))"
    by (simp add: scrape_def)
next
  assume "scrape lib page s \<noteq> None"
  then obtain res where "scrape_loop lib page s [] 1 = Some res"
    by (auto simp: scrape_def)
  then show "\<exists>ts. pages_from page s ts" by (rule scrape_loop_returns)
qed

text \<open>A next-page control that never disables keeps the loop running for ever.\<close>

lemma endless_never_returns: "scrape lib endless_pages 0 = None"
proof (rule ccontr)
  assume "scrape lib endless_pages 0 \<noteq> None"
  then obtain res where "scrape_loop lib endless_pages 0 [] 1 = Some res"
    by (auto simp: scrape_def)
  from scrape_loop_returns [OF this] obtain ts where ts: "pages_from endless_pages 0 ts" ..
  have "\<not> pages_from endless_pages n ts" for n
    by (induction ts arbitrary: n) (simp_all add: endless_pages_def)
  with ts show False by blast
qed

lemma row2_listing:
  "extractRowData date_fns_spec (row_with_importe ''12,50 EUR'') =
     Inr \<lparr>expediente = \<lparr>numero = ''2024/OBR/17'', descripcion = ''Obras de reforma'',
                         licitacionElectronica = True, enlace = ''https://example.org/deeplink/17''\<rparr>,
          tipoContrato = \<lparr>tipo = ''Obras'', subtipo = []\<rparr>,
          estado = ''Publicada'',
          importe = Num (125 / 10),
          fechaPresentacion = ''2024-12-31'',
          organoContratacion = \<lparr>nombre = ''Ayuntamiento'', organo_enlace = []\<rparr>\<rparr>"
  by (simp add: row_with_importe_def good_row_def extractRowData_def extractExpediente_def
      extractTipoContrato_def extractOrganoContratacion_def extractImporte_def extractText_def
      extractFecha_def text_or_empty_def href_or_empty_def
      js_trim_def is_space_def parseAmount_def numericValue_def parseFloat_def is_digit_def
      digits_value_def digit_val_def parseDate_def date_fns_spec_def valid_date_def days_in_month_def
      digit_char_def pad_digits_2 pad_digits_4 leap_year_def)

lemma broken_row_fails: "extractRowData lib broken_row = Inl (NoElement ''.tdExpediente'')"
  by (simp add: broken_row_def extractRowData_def extractExpediente_def)

text \<open>Two pages: the broken row of the first page is left out, the others are returned in
  order.\<close>

theorem scrape_concatenates_witness:
  "map_option (map importe) (scrape date_fns_spec two_pages 0) =
     Some [Num (123456 / 100), Num (125 / 10)] \<and>
   map_option (map fechaPresentacion) (scrape date_fns_spec two_pages 0) =
     Some [''2024-12-31'', ''2024-12-31'']"
proof -
  have p: "pages_from two_pages 0 [1]"
    by (simp add: two_pages_def)
  have r0: "extracted_rows date_fns_spec (table_rows two_pages 0) =
      [projr (extractRowData date_fns_spec good_row)]"
    by (simp add: two_pages_def extracted_rows_def good_row_listing broken_row_fails)
  have r1: "extracted_rows date_fns_spec (table_rows two_pages (Suc 0)) =
      [projr (extractRowData date_fns_spec (row_with_importe ''12,50 EUR''))]"
    by (simp add: two_pages_def extracted_rows_def row2_listing)
  from scrape_concatenates [of two_pages 0 "[1]" date_fns_spec] p
  have "scrape date_fns_spec two_pages 0 =
      Some (concat (map (\<lambda>t. extracted_rows date_fns_spec (table_rows two_pages t)) [0, 1]))"
    by blast
  then show ?thesis
    by (simp add: r0 r1 good_row_listing row2_listing)
qed

section \<open>Properties of the tree expansion driver\<close>

lemma expand_loop_stopped: "expand_loop w False i s = (i, s)"
  by (subst expand_loop.simps) simp

text \<open>The widget runs out of controls after \<open>k\<close> more rounds, below the ceiling.\<close>

lemma expand_loop_fixpoint:
  "i + k < maxIterations \<Longrightarrow>
   (\<forall>j<k. expand_buttons w ((expand_round w ^^ j) s) \<noteq> []) \<Longrightarrow>
   expand_buttons w ((expand_round w ^^ k) s) = [] \<Longrightarrow>
   expand_loop w True i s = (i + k, (expand_round w ^^ k) s)"
proof (induction k arbitrary: i s)
  case 0
  then show ?case
    by (subst expand_loop.simps) (simp add: expand_loop_stopped)
next
  case (Suc k)
  from Suc.prems(2) have "expand_buttons w ((expand_round w ^^ 0) s) \<noteq> []" by blast
  then have now: "expand_buttons w s \<noteq> []" by simp
  have later: "\<forall>j<k. expand_buttons w ((expand_round w ^^ j) (expand_round w s)) \<noteq> []"
  proof (intro allI impI)
    fix j assume "j < k"
    then have "Suc j < Suc k" by simp
    with Suc.prems(2) have "expand_buttons w ((expand_round w ^^ Suc j) s) \<noteq> []" by blast
    then show "expand_buttons w ((expand_round w ^^ j) (expand_round w s)) \<noteq> []"
      by (simp add: funpow_swap1)
  qed
  have last: "expand_buttons w ((expand_round w ^^ k) (expand_round w s)) = []"
    using Suc.prems(3) by (simp add: funpow_swap1)
  from Suc.prems(1) have bound: "Suc i + k < maxIterations" and i: "i < maxIterations" by simp_all
  have "expand_loop w True i s = expand_loop w True (Suc i) (expand_round w s)"
    by (subst expand_loop.simps) (simp add: now i)
  also have "\<dots> = (Suc i + k, (expand_round w ^^ k) (expand_round w s))"
    by (rule Suc.IH [OF bound later last])
  also have "\<dots> = (i + Suc k, (expand_round w ^^ Suc k) s)"
    by (simp add: funpow_swap1)
  finally show ?case .
qed

text \<open>The widget shows controls in every round up to the ceiling.\<close>

lemma expand_loop_ceiling:
  "i + k = maxIterations \<Longrightarrow>
   (\<forall>j<k. expand_buttons w ((expand_round w ^^ j) s) \<noteq> []) \<Longrightarrow>
   expand_loop w True i s = (maxIterations, (expand_round w ^^ k) s)"
proof (induction k arbitrary: i s)
  case 0
  then show ?case
    by (subst expand_loop.simps) simp
next
  case (Suc k)
  from Suc.prems(2) have "expand_buttons w ((expand_round w ^^ 0) s) \<noteq> []" by blast
  then have now: "expand_buttons w s \<noteq> []" by simp
  have later: "\<forall>j<k. expand_buttons w ((expand_round w ^^ j) (expand_round w s)) \<noteq> []"
  proof (intro allI impI)
    fix j assume "j < k"
    then have "Suc j < Suc k" by simp
    with Suc.prems(2) have "expand_buttons w ((expand_round w ^^ Suc j) s) \<noteq> []" by blast
    then show "expand_buttons w ((expand_round w ^^ j) (expand_round w s)) \<noteq> []"
      by (simp add: funpow_swap1)
  qed
  from Suc.prems(1) have bound: "Suc i + k = maxIterations" and i: "i < maxIterations" by simp_all
  have "expand_loop w True i s = expand_loop w True (Suc i) (expand_round w s)"
    by (subst expand_loop.simps) (simp add: now i)
  also have "\<dots> = (maxIterations, (expand_round w ^^ k) (expand_round w s))"
    by (rule Suc.IH [OF bound later])
  also have "\<dots> = (maxIterations, (expand_round w ^^ Suc k) s)"
    by (simp add: funpow_swap1)
  finally show ?case .
qed

text \<open>
  Claim C6, as amended. \<^verbatim>\<open>expandAllNodes\<close> returns for every widget (it is a total function,
  and reaching the ceiling is a normal return). Given a widget that runs out of expand
  controls after \<open>k\<close> rounds with \<open>k\<close> below the ceiling of 100, it stops after exactly
  \<open>k\<close> iterations with no expand control left. Given a widget that shows a control in
  each of the first 100 rounds, it stops after exactly 100 iterations.
\<close>

theorem expandAllNodes_terminates:
  "maxIterations = 100 \<and>
   (k < maxIterations \<and> (\<forall>j<k. expand_buttons w ((expand_round w ^^ j) s) \<noteq> []) \<and>
      expand_buttons w ((expand_round w ^^ k) s) = [] \<longrightarrow>
        expandAllNodes w s = (k, (expand_round w ^^ k) s) \<and>
        expand_buttons w (snd (expandAllNodes w s)) = []) \<and>
   ((\<forall>j<maxIterations. expand_buttons w ((expand_round w ^^ j) s) \<noteq> []) \<longrightarrow>
        expandAllNodes w s = (maxIterations, (expand_round w ^^ maxIterations) s))"
proof (intro conjI impI)
  show "maxIterations = 100" by (simp add: maxIterations_def)
next
  assume h: "k < maxIterations \<and> (\<forall>j<k. expand_buttons w ((expand_round w ^^ j) s) \<noteq> []) \<and>
      expand_buttons w ((expand_round w ^^ k) s) = []"
  then have bound: "0 + k < maxIterations"
    and before: "\<forall>j<k. expand_buttons w ((expand_round w ^^ j) s) \<noteq> []"
    and at_k: "expand_buttons w ((expand_round w ^^ k) s) = []"
    by simp_all
  from expand_loop_fixpoint [OF bound before at_k]
  show res: "expandAllNodes w s = (k, (expand_round w ^^ k) s)"
    by (simp add: expandAllNodes_def)
  from h show "expand_buttons w (snd (expandAllNodes w s)) = []"
    by (simp add: res)
next
  assume h: "\<forall>j<maxIterations. expand_buttons w ((expand_round w ^^ j) s) \<noteq> []"
  have "0 + maxIterations = maxIterations" by simp
  from expand_loop_ceiling [OF this h]
  show "expandAllNodes w s = (maxIterations, (expand_round w ^^ maxIterations) s)"
    by (simp add: expandAllNodes_def)
qed

lemma levels_round: "expand_round levels_widget n = n - 1"
  by (simp add: expand_round_def levels_widget_def click_button_def)

lemma levels_rounds: "(expand_round levels_widget ^^ j) n = n - j"
  by (induction j) (simp_all add: levels_round)

lemma levels_buttons: "expand_buttons levels_widget n = (if n = 0 then [] else [()])"
  by (simp add: levels_widget_def)

lemma endless_round: "expand_round endless_widget n = Suc n"
  by (simp add: expand_round_def endless_widget_def click_button_def)

lemma endless_rounds: "(expand_round endless_widget ^^ j) n = n + j"
  by (induction j) (simp_all add: endless_round)

lemma endless_buttons: "expand_buttons endless_widget n = [()]"
  by (simp add: endless_widget_def)

text \<open>A widget with three levels, and one in which every click reveals a new control.\<close>

theorem expandAllNodes_terminates_witness:
  "expandAllNodes levels_widget 3 = (3, 0) \<and> expand_buttons levels_widget 0 = [] \<and>
   expandAllNodes endless_widget 0 = (100, 100)"
proof -
  have h1: "3 < maxIterations \<and>
      (\<forall>j<3. expand_buttons levels_widget ((expand_round levels_widget ^^ j) 3) \<noteq> []) \<and>
      expand_buttons levels_widget ((expand_round levels_widget ^^ 3) 3) = []"
    by (simp add: maxIterations_def levels_rounds levels_buttons)
  have h2: "\<forall>j<maxIterations.
      expand_buttons endless_widget ((expand_round endless_widget ^^ j) 0) \<noteq> []"
    by (simp add: endless_buttons)
  from expandAllNodes_terminates [of 3 levels_widget 3] h1
  have "expandAllNodes levels_widget 3 = (3, (expand_round levels_widget ^^ 3) 3)"
    by blast
  moreover from expandAllNodes_terminates [of 0 endless_widget 0] h2
  have "expandAllNodes endless_widget 0 =
      (maxIterations, (expand_round endless_widget ^^ maxIterations) 0)"
    by blast
  ultimately show ?thesis
    by (simp add: levels_rounds endless_rounds levels_buttons maxIterations_def)
qed

text \<open>
  The claim as first stated fails: a widget with 150 levels has finitely many levels
  (after 150 rounds no control is left), yet the driver stops at the ceiling of 100
  iterations with a control still to be found.
\<close>

theorem expandAllNodes_counterexample:
  "expand_buttons levels_widget ((expand_round levels_widget ^^ 150) 150) = [] \<and>
   fst (expandAllNodes levels_widget 150) = 100 \<and>
   expand_buttons levels_widget (snd (expandAllNodes levels_widget 150)) \<noteq> []"
proof -
  have h: "\<forall>j<maxIterations.
      expand_buttons levels_widget ((expand_round levels_widget ^^ j) 150) \<noteq> []"
    by (simp add: levels_rounds levels_buttons maxIterations_def)
  have "0 + maxIterations = maxIterations" by simp
  from expand_loop_ceiling [OF this h]
  have "expandAllNodes levels_widget 150 = (100, 50)"
    by (simp add: expandAllNodes_def levels_rounds maxIterations_def)
  then show ?thesis
    by (simp add: levels_rounds levels_buttons)
qed

section \<open>Properties of the tree reconstructor\<close>

lemmas tree_eval = scrapeCPVTree_depth_def add_node_depth_def node_elem_def getNodeLevel_def
  parseLabel_def label_match_def tail_match_def after_hyphen_def digits8_def
  dot_plus_end_def is_line_terminator_def is_digit_def js_trim_def is_space_def

text \<open>In the version that places nodes by document path, an object of the store keeps its
  code, description and level, and a root stays a root.\<close>

lemma add_node_path_keeps:
  "i < length (heap st) \<Longrightarrow>
   i < length (heap (add_node_path st e)) \<and>
   obj_code (heap (add_node_path st e) ! i) = obj_code (heap st ! i) \<and>
   obj_description (heap (add_node_path st e) ! i) = obj_description (heap st ! i) \<and>
   obj_level (heap (add_node_path st e) ! i) = obj_level (heap st ! i)"
  by (auto simp: add_node_path_def Let_def nth_append nth_list_update
      split: option.splits)

lemma add_node_path_roots: "set (rootNodes st) \<subseteq> set (rootNodes (add_node_path st e))"
  by (auto simp: add_node_path_def Let_def split: option.splits)

lemma foldl_add_node_path_keeps:
  "i < length (heap st) \<Longrightarrow>
   i < length (heap (foldl add_node_path st es)) \<and>
   obj_code (heap (foldl add_node_path st es) ! i) = obj_code (heap st ! i) \<and>
   obj_description (heap (foldl add_node_path st es) ! i) = obj_description (heap st ! i) \<and>
   obj_level (heap (foldl add_node_path st es) ! i) = obj_level (heap st ! i)"
proof (induction es arbitrary: st)
  case Nil
  then show ?case by simp
next
  case (Cons e es)
  from add_node_path_keeps [OF Cons.prems, of e]
  have step: "i < length (heap (add_node_path st e))"
    and same: "obj_code (heap (add_node_path st e) ! i) = obj_code (heap st ! i)"
      "obj_description (heap (add_node_path st e) ! i) = obj_description (heap st ! i)"
      "obj_level (heap (add_node_path st e) ! i) = obj_level (heap st ! i)"
    by simp_all
  from Cons.IH [OF step] same show ?case by simp
qed

lemma foldl_add_node_path_roots:
  "set (rootNodes st) \<subseteq> set (rootNodes (foldl add_node_path st es))"
proof (induction es arbitrary: st)
  case Nil
  then show ?case by simp
next
  case (Cons e es)
  from add_node_path_roots [of st e] Cons.IH [of "add_node_path st e"]
  show ?case by auto
qed

text \<open>A node whose parent path is not in \<^verbatim>\<open>nodeMap\<close> is pushed onto \<^verbatim>\<open>rootNodes\<close>.\<close>

lemma add_node_path_orphan:
  assumes "label_text e = Some t" and "t \<noteq> []" and "getNodeLevel e = Some lv"
    and "map_of ((dom_path e, length (heap st)) # nodeMap st) (butlast (dom_path e)) = None"
  shows "rootNodes (add_node_path st e) = rootNodes st @ [length (heap st)] \<and>
         heap (add_node_path st e) =
           heap st @ [\<lparr>obj_code = fst (parseLabel t), obj_description = snd (parseLabel t),
                       obj_level = lv, obj_children = []\<rparr>]"
  using assms by (simp add: add_node_path_def Let_def)

text \<open>Orphan promotion in the version that places nodes by document path: wherever in the
  stream the node stands, if its parent path is not in \<^verbatim>\<open>nodeMap\<close> when it is read, it is a
  root of the result, with its own code, description and level.\<close>

lemma scrapeCPVTree_orphan_root:
  assumes "label_text e = Some t" and "t \<noteq> []" and "getNodeLevel e = Some lv"
    and "map_of ((dom_path e, length (heap (scrapeCPVTree pre))) # nodeMap (scrapeCPVTree pre))
           (butlast (dom_path e)) = None"
  shows "length (heap (scrapeCPVTree pre)) \<in> set (rootNodes (scrapeCPVTree (pre @ e # post))) \<and>
         length (heap (scrapeCPVTree pre)) < length (heap (scrapeCPVTree (pre @ e # post))) \<and>
         obj_code (heap (scrapeCPVTree (pre @ e # post)) ! length (heap (scrapeCPVTree pre))) =
           fst (parseLabel t) \<and>
         obj_description (heap (scrapeCPVTree (pre @ e # post)) ! length (heap (scrapeCPVTree pre))) =
           snd (parseLabel t) \<and>
         obj_level (heap (scrapeCPVTree (pre @ e # post)) ! length (heap (scrapeCPVTree pre))) = lv"
proof -
  define st where "st = scrapeCPVTree pre"
  define st1 where "st1 = add_node_path st e"
  have final: "scrapeCPVTree (pre @ e # post) = foldl add_node_path st1 post"
    by (simp add: scrapeCPVTree_def st_def st1_def)
  from add_node_path_orphan [OF assms(1-3), of st] assms(4)
  have r1: "rootNodes st1 = rootNodes st @ [length (heap st)]"
    and h1: "heap st1 = heap st @ [\<lparr>obj_code = fst (parseLabel t),
        obj_description = snd (parseLabel t), obj_level = lv, obj_children = []\<rparr>]"
    by (simp_all add: st_def st1_def)
  from r1 foldl_add_node_path_roots [of st1 post]
  have root: "length (heap st) \<in> set (rootNodes (foldl add_node_path st1 post))" by auto
  from h1 have "length (heap st) < length (heap st1)" by simp
  from foldl_add_node_path_keeps [OF this, of post] h1
  show ?thesis unfolding final st_def [symmetric] using root by simp
qed

lemma placed_ok_sel:
  "placed_ok d x = ((if d = 0 then level x \<le> 1 else level x = Suc d) \<and>
     list_all (placed_ok (Suc d)) (children x))"
  by (cases x) simp

lemma list_all_last_butlast:
  "xs \<noteq> [] \<Longrightarrow> list_all P xs = (list_all P (butlast xs) \<and> P (last xs))"
  by (induction xs) auto

lemma push_at_placed:
  "push_at n node xs = Some ys \<Longrightarrow> list_all (placed_ok d) xs \<Longrightarrow>
   level node = Suc (d + n) \<Longrightarrow> children node = [] \<Longrightarrow> list_all (placed_ok d) ys"
proof (induction n arbitrary: xs ys d)
  case 0
  from 0(1) have ys: "ys = xs @ [node]" by simp
  from 0(3,4) have "placed_ok d node" by (simp add: placed_ok_sel [of d node])
  with 0(2) show ?case by (simp add: ys)
next
  case (Suc n)
  from Suc.prems(1) have ne: "xs \<noteq> []" by (auto split: if_splits)
  with Suc.prems(1) obtain cs where cs: "push_at n node (children (last xs)) = Some cs"
    and ys: "ys = butlast xs @ [CPVNode (code (last xs)) (description (last xs)) (level (last xs)) cs]"
    by (auto split: option.splits)
  from Suc.prems(2) ne have bl: "list_all (placed_ok d) (butlast xs)" and la: "placed_ok d (last xs)"
    by (simp_all add: list_all_last_butlast)
  from la have both: "(if d = 0 then level (last xs) \<le> 1 else level (last xs) = Suc d) \<and>
      list_all (placed_ok (Suc d)) (children (last xs))"
    using placed_ok_sel [of d "last xs"] by blast
  then have ch: "list_all (placed_ok (Suc d)) (children (last xs))"
    and lv: "if d = 0 then level (last xs) \<le> 1 else level (last xs) = Suc d"
    by blast+
  from Suc.prems(3) have "level node = Suc (Suc d + n)" by simp
  from Suc.IH [OF cs ch this Suc.prems(4)] have "list_all (placed_ok (Suc d)) cs" .
  with lv bl show ?case by (simp add: ys)
qed

lemma add_node_depth_placed:
  "list_all (placed_ok 0) cpvData \<Longrightarrow> list_all (placed_ok 0) (add_node_depth cpvData e)"
proof -
  assume inv: "list_all (placed_ok 0) cpvData"
  show ?thesis
  proof (cases "label_text e")
    case None
    with inv show ?thesis by (simp add: add_node_depth_def)
  next
    case (Some t)
    show ?thesis
    proof (cases "t = [] \<or> getNodeLevel e = None")
      case True
      with Some inv show ?thesis by (auto simp: add_node_depth_def)
    next
      case False
      then obtain lv where lv: "getNodeLevel e = Some lv" and t: "t \<noteq> []" by auto
      define node where "node = CPVNode (fst (parseLabel t)) (snd (parseLabel t)) lv []"
      show ?thesis
      proof (cases "lv = 0")
        case True
        with Some t lv inv show ?thesis by (simp add: add_node_depth_def)
      next
        case nz: False
        show ?thesis
        proof (cases "push_at (lv - 1) node cpvData")
          case None
          with Some t lv nz inv show ?thesis by (simp add: add_node_depth_def node_def)
        next
          case (Some ys)
          from nz have "level node = Suc (0 + (lv - 1))" by (simp add: node_def)
          from push_at_placed [OF Some inv this] have "list_all (placed_ok 0) ys"
            by (simp add: node_def)
          with \<open>label_text e = Some t\<close> t lv nz Some show ?thesis
            by (simp add: add_node_depth_def node_def)
        qed
      qed
    qed
  qed
qed

lemma foldl_add_node_depth_placed:
  "list_all (placed_ok 0) cpvData \<Longrightarrow> list_all (placed_ok 0) (foldl add_node_depth cpvData nodes)"
  by (induction nodes arbitrary: cpvData) (simp_all add: add_node_depth_placed)

text \<open>
  For every stream, the version that places nodes by level returns roots of level 0 or
  1 and puts a node of level \<open>L \<ge> 2\<close> at nesting depth \<open>L - 1\<close>. So the level of a
  child is one greater than its parent's below every node but a root of level 0, where
  it is 2.
\<close>

lemma scrapeCPVTree_depth_placed: "list_all (placed_ok 0) (scrapeCPVTree_depth nodes)"
  by (simp add: scrapeCPVTree_depth_def foldl_add_node_depth_placed)

lemma placed_ok_child_level:
  "placed_ok d p \<Longrightarrow> c \<in> set (children p) \<Longrightarrow>
   level c = (if d = 0 then 2 else Suc (level p))"
proof -
  assume p: "placed_ok d p" and c: "c \<in> set (children p)"
  from p have lv: "if d = 0 then level p \<le> 1 else level p = Suc d"
    and ch: "list_all (placed_ok (Suc d)) (children p)"
    using placed_ok_sel [of d p] by blast+
  from ch c have "placed_ok (Suc d) c" by (simp add: list_all_iff)
  then have "level c = Suc (Suc d)" using placed_ok_sel [of "Suc d" c] by simp
  with lv show ?thesis by (simp split: if_splits)
qed

text \<open>
  Claim C1, at the input where the code departs from it. The claim: in both versions a
  node whose parent cannot be found is a root of the result. In the version that places
  nodes by level, a node of level 2 with no node before it, or a node of level 3 right
  after a root, makes the descent read the last element of an empty array: the TypeError
  is caught by the \<^verbatim>\<open>catch\<close> of the loop body and the node is in the result nowhere. The
  version that places nodes by document path makes the same nodes roots.
\<close>

theorem scrapeCPVTree_depth_drops_orphan:
  "scrapeCPVTree_depth [node_elem ''03111000-Semillas'' 38 [0, 1]] = [] \<and>
   scrapeCPVTree_depth
     [node_elem ''03000000-Agricultura'' 0 [0, 0], node_elem ''03111000-Semillas'' 57 [0, 1]] =
     [CPVNode ''03000000'' ''Agricultura'' 0 []] \<and>
   rootNodes (scrapeCPVTree [node_elem ''03111000-Semillas'' 38 [0, 1]]) = [0] \<and>
   rootNodes (scrapeCPVTree
     [node_elem ''03000000-Agricultura'' 0 [0, 0], node_elem ''03111000-Semillas'' 57 [0, 1]]) =
     [0, 1]"
  by (simp add: tree_eval scrapeCPVTree_def add_node_path_def numeral_2_eq_2)

text \<open>
  Claim C2, at the input where the code departs from it. The claim: in the version that
  places nodes by level, every child has a level one greater than its parent's. The
  descent runs \<open>level - 1\<close> times, so a node of level 2 lands in the children of the last
  root whatever that root's level: after a root of level 0 the child's level is 2.
\<close>

theorem scrapeCPVTree_depth_skips_level:
  "scrapeCPVTree_depth
     [node_elem ''03000000-Agricultura'' 0 [0, 0], node_elem ''03111000-Semillas'' 38 [0, 1]] =
     [CPVNode ''03000000'' ''Agricultura'' 0 [CPVNode ''03111000'' ''Semillas'' 2 []]]"
  by (simp add: tree_eval numeral_2_eq_2)

end
